theory Spec2Isabelle
  imports Main
begin

section \<open>Text: Python strings and \<open>str.strip\<close>\<close>

text \<open>
  A Python \<open>str\<close> is a sequence of code points. It is modelled as a \<open>string\<close>, whose
  characters are the code points below 256. For these, \<open>str.isspace\<close> (and the class
  \<open>\s\<close> of \<open>re\<close> on a \<open>str\<close> pattern) holds of exactly TAB, LF, VT, FF, CR, the
  separators 0x1C to 0x1F, the space, NEL (0x85) and the no-break space (0xA0), and the class
  \<open>\d\<close> holds of exactly the ten ASCII digits.
\<close>

definition isspace :: "char \<Rightarrow> bool" where
  "isspace c = (c \<in> set [CHR 0x09, CHR 0x0A, CHR 0x0B, CHR 0x0C, CHR 0x0D,
                          CHR 0x1C, CHR 0x1D, CHR 0x1E, CHR 0x1F, CHR 0x20,
                          CHR 0x85, CHR 0xA0])"

definition isdecimal :: "char \<Rightarrow> bool" where
  "isdecimal c = (c \<in> set ''0123456789'')"

text \<open>\<open>s.strip()\<close>: the string without its leading and trailing whitespace.\<close>

definition strip :: "string \<Rightarrow> string" where
  "strip s = rev (dropWhile isspace (rev (dropWhile isspace s)))"

section \<open>Compiled patterns and \<open>Pattern.match\<close>\<close>

text \<open>
  The source's regular expressions use a small part of the \<open>re\<close> syntax: the anchors
  \<open>^\<close> and \<open>$\<close>, literal characters, unnested capture groups, and repetitions of
  one-character classes (\<open>.\<close>, \<open>\s\<close>, \<open>\d\<close>, \<open>[^c]\<close>), greedy or lazy, with a
  lower and an optional upper bound. A compiled pattern is the list of these tokens, read
  from left to right, with one token for each parenthesis.
\<close>

datatype cclass = Dot | Space | Digit | NotChar char

datatype greed = Greedy | Lazy

datatype token =
    Bol
  | Eol
  | Lit char
  | Rep cclass nat "nat option" greed
  | GOpen
  | GClose

type_synonym regex = "token list"

text \<open>No flag is given to \<open>re.compile\<close>: \<open>.\<close> is any character but the newline.\<close>

fun in_class :: "cclass \<Rightarrow> char \<Rightarrow> bool" where
  "in_class Dot c = (c \<noteq> CHR 0x0A)"
| "in_class Space c = isspace c"
| "in_class Digit c = isdecimal c"
| "in_class (NotChar x) c = (c \<noteq> x)"

fun below :: "nat option \<Rightarrow> nat \<Rightarrow> bool" where
  "below None n = True"
| "below (Some m) n = (n < m)"

text \<open>
  A greedy repetition takes one more character of the class while it can, and gives the
  rest of the pattern (the continuation \<open>cont\<close>, applied to the number of characters taken
  and to the remaining text) its chance on the way back, longest choice first. A lazy
  repetition tries the continuation before it takes one more character. This is the
  backtracking order of \<open>re\<close>.
\<close>

fun greedy_rep ::
  "(char \<Rightarrow> bool) \<Rightarrow> nat \<Rightarrow> nat option \<Rightarrow> (nat \<Rightarrow> string \<Rightarrow> 'a option) \<Rightarrow> nat \<Rightarrow> string
     \<Rightarrow> 'a option" where
  "greedy_rep P mn mx cont n [] = (if mn \<le> n then cont n [] else None)"
| "greedy_rep P mn mx cont n (c # cs) =
     (case (if P c \<and> below mx n then greedy_rep P mn mx cont (Suc n) cs else None) of
        Some r \<Rightarrow> Some r
      | None \<Rightarrow> if mn \<le> n then cont n (c # cs) else None)"

fun lazy_rep ::
  "(char \<Rightarrow> bool) \<Rightarrow> nat \<Rightarrow> nat option \<Rightarrow> (nat \<Rightarrow> string \<Rightarrow> 'a option) \<Rightarrow> nat \<Rightarrow> string
     \<Rightarrow> 'a option" where
  "lazy_rep P mn mx cont n [] = (if mn \<le> n then cont n [] else None)"
| "lazy_rep P mn mx cont n (c # cs) =
     (case (if mn \<le> n then cont n (c # cs) else None) of
        Some r \<Rightarrow> Some r
      | None \<Rightarrow> if P c \<and> below mx n then lazy_rep P mn mx cont (Suc n) cs else None)"

text \<open>
  \<open>run ts pos s mark caps\<close> matches the tokens \<open>ts\<close> against the text \<open>s\<close> that remains
  at position \<open>pos\<close> of the subject. \<open>mark\<close> is the text that remained when the last group
  was opened and \<open>caps\<close> are the groups closed so far. The result is the first match in
  backtracking order, as its list of groups, or \<open>None\<close>.
  \<open>$\<close> holds at the end of the subject and before a newline that ends it.
\<close>

fun run :: "regex \<Rightarrow> nat \<Rightarrow> string \<Rightarrow> string \<Rightarrow> string list \<Rightarrow> string list option" where
  "run [] pos s mark caps = Some caps"
| "run (Bol # ts) pos s mark caps = (if pos = 0 then run ts pos s mark caps else None)"
| "run (Eol # ts) pos s mark caps =
     (if s = [] \<or> s = [CHR 0x0A] then run ts pos s mark caps else None)"
| "run (Lit x # ts) pos s mark caps =
     (case s of [] \<Rightarrow> None
      | c # cs \<Rightarrow> if c = x then run ts (Suc pos) cs mark caps else None)"
| "run (Rep cl mn mx g # ts) pos s mark caps =
     (case g of
        Greedy \<Rightarrow> greedy_rep (in_class cl) mn mx (\<lambda>k s'. run ts (pos + k) s' mark caps) 0 s
      | Lazy \<Rightarrow> lazy_rep (in_class cl) mn mx (\<lambda>k s'. run ts (pos + k) s' mark caps) 0 s)"
| "run (GOpen # ts) pos s mark caps = run ts pos s s caps"
| "run (GClose # ts) pos s mark caps =
     run ts pos s mark (caps @ [take (length mark - length s) mark])"

text \<open>
  \<open>pattern.match(line)\<close> matches at the beginning of \<open>line\<close> (not necessarily to its end)
  and returns a match object, here the value of \<open>match.groups()\<close>, or \<open>None\<close>.
\<close>

definition re_match :: "regex \<Rightarrow> string \<Rightarrow> string list option" where
  "re_match p line = run p 0 line line []"

text \<open>The number of capture groups of a pattern.\<close>

definition groups_of :: "regex \<Rightarrow> nat" where
  "groups_of p = length (filter (\<lambda>t. t = GOpen) p)"

section \<open>The candidate formats\<close>

text \<open>Abbreviations for the quantifiers that occur in the source's expressions.\<close>

abbreviation star :: "cclass \<Rightarrow> token" where
  "star cl \<equiv> Rep cl 0 None Greedy"

abbreviation plus :: "cclass \<Rightarrow> token" where
  "plus cl \<equiv> Rep cl 1 None Greedy"

abbreviation plus_lazy :: "cclass \<Rightarrow> token" where
  "plus_lazy cl \<equiv> Rep cl 1 None Lazy"

abbreviation between :: "cclass \<Rightarrow> nat \<Rightarrow> nat \<Rightarrow> token" where
  "between cl m n \<equiv> Rep cl m (Some n) Greedy"

text \<open>
  An entry of \<open>patterns_to_try\<close>: its key, the test expression, the capture expression
  and the column names.
\<close>

record candidate =
  name :: string
  test_re :: regex
  capture_re :: regex
  cols :: "string list"

text \<open>
  1. \<^verbatim>\<open>^\[.+?,\s*.+?\]\s*[^:]+:\s*.*\<close> and
     \<^verbatim>\<open>^\[([^,]+),\s*(.+?)\]\s*([^:]+):\s*(.*)$\<close>
\<close>

definition bracket_datetime_user :: candidate where
  "bracket_datetime_user =
     \<lparr> name = ''bracket_datetime_user'',
       test_re =
         [Bol, Lit CHR ''['', plus_lazy Dot, Lit CHR '','', star Space, plus_lazy Dot,
          Lit CHR '']'', star Space, plus (NotChar CHR '':''), Lit CHR '':'', star Space,
          star Dot],
       capture_re =
         [Bol, Lit CHR ''['', GOpen, plus (NotChar CHR '',''), GClose, Lit CHR '','',
          star Space, GOpen, plus_lazy Dot, GClose, Lit CHR '']'', star Space,
          GOpen, plus (NotChar CHR '':''), GClose, Lit CHR '':'', star Space,
          GOpen, star Dot, GClose, Eol],
       cols = [''Date'', ''Time'', ''User'', ''Message''] \<rparr>"

text \<open>
  2. \<^verbatim>\<open>^\d{1,2}/\d{1,2}/\d{2,4},\s*\d{1,2}:\d{1,2}\s*-\s*[^:]+:\s*.*\<close> and
     \<^verbatim>\<open>^([^,]+),\s*([^-]+)\s*-\s*([^:]+):\s*(.*)$\<close>
\<close>

definition date_time_dash_user :: candidate where
  "date_time_dash_user =
     \<lparr> name = ''date_time_dash_user'',
       test_re =
         [Bol, between Digit 1 2, Lit CHR ''/'', between Digit 1 2, Lit CHR ''/'',
          between Digit 2 4, Lit CHR '','', star Space, between Digit 1 2, Lit CHR '':'',
          between Digit 1 2, star Space, Lit CHR ''-'', star Space,
          plus (NotChar CHR '':''), Lit CHR '':'', star Space, star Dot],
       capture_re =
         [Bol, GOpen, plus (NotChar CHR '',''), GClose, Lit CHR '','', star Space,
          GOpen, plus (NotChar CHR ''-''), GClose, star Space, Lit CHR ''-'', star Space,
          GOpen, plus (NotChar CHR '':''), GClose, Lit CHR '':'', star Space,
          GOpen, star Dot, GClose, Eol],
       cols = [''Date'', ''Time'', ''User'', ''Message''] \<rparr>"

text \<open>
  3. \<^verbatim>\<open>^\[.+?\]\s*[^:]+:\s*.*\<close> and \<^verbatim>\<open>^\[(.+?)\]\s*([^:]+):\s*(.*)$\<close>
\<close>

definition bracket_timestamp_user :: candidate where
  "bracket_timestamp_user =
     \<lparr> name = ''bracket_timestamp_user'',
       test_re =
         [Bol, Lit CHR ''['', plus_lazy Dot, Lit CHR '']'', star Space,
          plus (NotChar CHR '':''), Lit CHR '':'', star Space, star Dot],
       capture_re =
         [Bol, Lit CHR ''['', GOpen, plus_lazy Dot, GClose, Lit CHR '']'', star Space,
          GOpen, plus (NotChar CHR '':''), GClose, Lit CHR '':'', star Space,
          GOpen, star Dot, GClose, Eol],
       cols = [''Timestamp'', ''User'', ''Message''] \<rparr>"

text \<open>
  4. \<^verbatim>\<open>^.+?\s*-\s*[^:]+:\s*.*\<close> and \<^verbatim>\<open>^(.+?)\s*-\s*([^:]+):\s*(.*)$\<close>
\<close>

definition timestamp_dash_user :: candidate where
  "timestamp_dash_user =
     \<lparr> name = ''timestamp_dash_user'',
       test_re =
         [Bol, plus_lazy Dot, star Space, Lit CHR ''-'', star Space,
          plus (NotChar CHR '':''), Lit CHR '':'', star Space, star Dot],
       capture_re =
         [Bol, GOpen, plus_lazy Dot, GClose, star Space, Lit CHR ''-'', star Space,
          GOpen, plus (NotChar CHR '':''), GClose, Lit CHR '':'', star Space,
          GOpen, star Dot, GClose, Eol],
       cols = [''Timestamp'', ''User'', ''Message''] \<rparr>"

text \<open>The dictionary is iterated in the order in which its entries are written.\<close>

definition patterns_to_try :: "candidate list" where
  "patterns_to_try =
     [bracket_datetime_user, date_time_dash_user, bracket_timestamp_user, timestamp_dash_user]"

section \<open>Files, exceptions and printed messages\<close>

text \<open>
  The exceptions the two functions can meet. \<open>open\<close> raises \<open>FileNotFoundError\<close> or
  another \<open>OSError\<close>; reading a text file raises \<open>UnicodeDecodeError\<close> or \<open>OSError\<close>;
  indexing an empty list raises \<open>IndexError\<close> and dividing by zero \<open>ZeroDivisionError\<close>;
  \<open>print\<close> raises \<open>UnicodeEncodeError\<close> when the standard output cannot encode the text,
  or an \<open>OSError\<close> when it cannot be written to.
\<close>

datatype py_exception =
    FileNotFoundError
  | PermissionError
  | OSError
  | UnicodeDecodeError
  | UnicodeEncodeError
  | IndexError
  | ZeroDivisionError

text \<open>
  What the file at \<open>file_path\<close> does when it is read: \<open>open\<close> raises, or it gives a
  handle whose successive reads each give a physical line (as \<open>readline\<close> returns it, with
  its line end) or raise. After the last line \<open>readline\<close> returns the empty string.
\<close>

datatype read = Line string | Fails py_exception

datatype text_file = CannotOpen py_exception | Opened "read list"

fun readline :: "read list \<Rightarrow> (py_exception + string) \<times> read list" where
  "readline [] = (Inr [], [])"
| "readline (Line l # rs) = (Inr l, rs)"
| "readline (Fails e # rs) = (Inl e, rs)"

text \<open>
  The calls of \<open>print\<close>, in the order in which they are made. In the two functions as
  they are embedded first, each \<open>print\<close> succeeds; \<open>auto_generate_pattern_on\<close> below is
  \<open>auto_generate_pattern\<close> on a standard output whose \<open>print\<close> can raise.
\<close>

datatype message =
    Analyzing int
  | FileNotFoundMsg
  | ErrorReadingFile py_exception
  | EmptySample
  | FoundPotential string
  | ConsistentFound string
  | RegexIs regex
  | Inconsistent string
  | NoConsistentPattern
  | UnexpectedError py_exception

section \<open>\<open>auto_generate_pattern\<close>\<close>

text \<open>
  The sampling loop \<^verbatim>\<open>for i in range(lines_to_sample)\<close>: each round reads one line,
  strips it and appends it to \<open>sample_lines\<close> unless it is empty. An exception leaves the
  loop.
\<close>

fun sample_loop :: "nat \<Rightarrow> read list \<Rightarrow> string list \<Rightarrow> py_exception + string list" where
  "sample_loop 0 rs sample_lines = Inr sample_lines"
| "sample_loop (Suc i) rs sample_lines =
     (case readline rs of
        (Inl e, rs') \<Rightarrow> Inl e
      | (Inr raw, rs') \<Rightarrow>
          (let line = strip raw
           in sample_loop i rs' (if line \<noteq> [] then sample_lines @ [line] else sample_lines)))"

text \<open>The \<open>with open(...)\<close> block; \<open>range\<close> of a negative number is empty.\<close>

definition read_sample :: "text_file \<Rightarrow> int \<Rightarrow> py_exception + string list" where
  "read_sample f lines_to_sample =
     (case f of
        CannotOpen e \<Rightarrow> Inl e
      | Opened rs \<Rightarrow> sample_loop (nat lines_to_sample) rs [])"

text \<open>The inner loop, which counts the lines of the sample that the capture expression matches.\<close>

fun count_matches :: "regex \<Rightarrow> string list \<Rightarrow> nat" where
  "count_matches capture [] = 0"
| "count_matches capture (line # ls) =
     (if re_match capture line \<noteq> None then Suc (count_matches capture ls)
      else count_matches capture ls)"

text \<open>
  \<^verbatim>\<open>match_count / len(sample_lines) > 0.9\<close>. The quotient of two \<open>int\<close>s is the double
  nearest to the exact quotient (ties to even), and the literal \<open>0.9\<close> is the double
  \<open>8106479329266893 / 2^53\<close>, the nearest to nine tenths. The doubles between one half
  and one are the multiples of \<open>1 / 2^53\<close>, and \<open>8106479329266893\<close> is odd. So the
  quotient rounds to a double above \<open>0.9\<close> exactly when it is at least the midpoint
  \<open>(2 * 8106479329266893 + 1) / 2^54\<close>. A zero divisor raises.
\<close>

definition exceeds_threshold :: "nat \<Rightarrow> nat \<Rightarrow> py_exception + bool" where
  "exceeds_threshold match_count len =
     (if len = 0 then Inl ZeroDivisionError
      else Inr (16212958658533787 * len \<le> match_count * 2 ^ 54))"

type_synonym inferred = "regex option \<times> string list option"

text \<open>
  The loop over \<open>patterns_to_try.items()\<close>, with the messages printed so far. It returns
  the function's result, or raises.
\<close>

fun candidates_loop ::
  "candidate list \<Rightarrow> string list \<Rightarrow> message list \<Rightarrow> (py_exception + inferred) \<times> message list"
  where
  "candidates_loop [] sample_lines out = (Inr (None, None), out @ [NoConsistentPattern])"
| "candidates_loop (c # cs) sample_lines out =
     (case sample_lines of
        [] \<Rightarrow> (Inl IndexError, out)
      | first # _ \<Rightarrow>
          if re_match (test_re c) first \<noteq> None then
            (let out1 = out @ [FoundPotential (name c)];
                 match_count = count_matches (capture_re c) sample_lines
             in case exceeds_threshold match_count (length sample_lines) of
                  Inl e \<Rightarrow> (Inl e, out1)
                | Inr True \<Rightarrow>
                    (Inr (Some (capture_re c), Some (cols c)),
                     out1 @ [ConsistentFound (name c), RegexIs (capture_re c)])
                | Inr False \<Rightarrow> candidates_loop cs sample_lines (out1 @ [Inconsistent (name c)]))
          else candidates_loop cs sample_lines out)"

definition auto_generate_pattern ::
  "text_file \<Rightarrow> int \<Rightarrow> (py_exception + inferred) \<times> message list" where
  "auto_generate_pattern f lines_to_sample =
     (let out = [Analyzing lines_to_sample]
      in case read_sample f lines_to_sample of
           Inl e \<Rightarrow>
             (Inr (None, None),
              out @ [if e = FileNotFoundError then FileNotFoundMsg else ErrorReadingFile e])
         | Inr sample_lines \<Rightarrow>
             if sample_lines = [] then (Inr (None, None), out @ [EmptySample])
             else candidates_loop patterns_to_try sample_lines out)"

section \<open>\<open>auto_generate_pattern\<close> on a standard output that can fail\<close>

text \<open>
  The standard output decides, from what has been printed so far and the text to print,
  whether \<open>print\<close> writes the text or raises.
\<close>

type_synonym stdout = "message list \<Rightarrow> message \<Rightarrow> py_exception option"

definition py_print :: "stdout \<Rightarrow> message list \<Rightarrow> message \<Rightarrow> py_exception + message list" where
  "py_print console out m =
     (case console out m of
        None \<Rightarrow> Inr (out @ [m])
      | Some e \<Rightarrow> Inl e)"

text \<open>
  No \<open>print\<close> of \<open>auto_generate_pattern\<close> stands in the body of its \<open>try\<close>: the first
  one precedes it, two are in its handlers, and the others follow it. So an exception of any
  of them leaves the function. The loop over the candidates, with its five prints:
\<close>

fun candidates_loop_on ::
  "stdout \<Rightarrow> candidate list \<Rightarrow> string list \<Rightarrow> message list
     \<Rightarrow> (py_exception + inferred) \<times> message list" where
  "candidates_loop_on console [] sample_lines out =
     (case py_print console out NoConsistentPattern of
        Inl e \<Rightarrow> (Inl e, out)
      | Inr out1 \<Rightarrow> (Inr (None, None), out1))"
| "candidates_loop_on console (c # cs) sample_lines out =
     (case sample_lines of
        [] \<Rightarrow> (Inl IndexError, out)
      | first # _ \<Rightarrow>
          if re_match (test_re c) first \<noteq> None then
            (case py_print console out (FoundPotential (name c)) of
               Inl e \<Rightarrow> (Inl e, out)
             | Inr out1 \<Rightarrow>
                 (let match_count = count_matches (capture_re c) sample_lines
                  in case exceeds_threshold match_count (length sample_lines) of
                       Inl e \<Rightarrow> (Inl e, out1)
                     | Inr True \<Rightarrow>
                         (case py_print console out1 (ConsistentFound (name c)) of
                            Inl e \<Rightarrow> (Inl e, out1)
                          | Inr out2 \<Rightarrow>
                              (case py_print console out2 (RegexIs (capture_re c)) of
                                 Inl e \<Rightarrow> (Inl e, out2)
                               | Inr out3 \<Rightarrow>
                                   (Inr (Some (capture_re c), Some (cols c)), out3)))
                     | Inr False \<Rightarrow>
                         (case py_print console out1 (Inconsistent (name c)) of
                            Inl e \<Rightarrow> (Inl e, out1)
                          | Inr out2 \<Rightarrow> candidates_loop_on console cs sample_lines out2)))
          else candidates_loop_on console cs sample_lines out)"

definition auto_generate_pattern_on ::
  "stdout \<Rightarrow> text_file \<Rightarrow> int \<Rightarrow> (py_exception + inferred) \<times> message list" where
  "auto_generate_pattern_on console f lines_to_sample =
     (case py_print console [] (Analyzing lines_to_sample) of
        Inl e \<Rightarrow> (Inl e, [])
      | Inr out \<Rightarrow>
          (case read_sample f lines_to_sample of
             Inl e \<Rightarrow>
               (case py_print console out
                       (if e = FileNotFoundError then FileNotFoundMsg else ErrorReadingFile e) of
                  Inl e' \<Rightarrow> (Inl e', out)
                | Inr out1 \<Rightarrow> (Inr (None, None), out1))
           | Inr sample_lines \<Rightarrow>
               if sample_lines = [] then
                 (case py_print console out EmptySample of
                    Inl e \<Rightarrow> (Inl e, out)
                  | Inr out1 \<Rightarrow> (Inr (None, None), out1))
               else candidates_loop_on console patterns_to_try sample_lines out))"

text \<open>
  A standard output on which every \<open>print\<close> succeeds, and one that encodes ASCII only: of
  the texts printed, those of lines 15, 91 and 97 of the source begin with an emoji.
\<close>

definition quiet_stdout :: stdout where
  "quiet_stdout out m = None"

definition ascii_stdout :: stdout where
  "ascii_stdout out m =
     (case m of
        Analyzing n \<Rightarrow> Some UnicodeEncodeError
      | ConsistentFound k \<Rightarrow> Some UnicodeEncodeError
      | NoConsistentPattern \<Rightarrow> Some UnicodeEncodeError
      | _ \<Rightarrow> None)"

section \<open>\<open>parse_chat_with_pattern\<close>\<close>

text \<open>
  A record is a \<open>dict\<close> from column names to strings: an association list in insertion
  order. Storing under a key that is present replaces its value in place.
\<close>

type_synonym row = "(string \<times> string) list"

fun dict_set :: "'k \<Rightarrow> 'v \<Rightarrow> ('k \<times> 'v) list \<Rightarrow> ('k \<times> 'v) list" where
  "dict_set k v [] = [(k, v)]"
| "dict_set k v ((k', v') # d) =
     (if k' = k then (k', v) # d else (k', v') # dict_set k v d)"

definition dict_of :: "('k \<times> 'v) list \<Rightarrow> ('k \<times> 'v) list" where
  "dict_of kvs = foldl (\<lambda>d (k, v). dict_set k v d) [] kvs"

text \<open>
  \<^verbatim>\<open>dict(zip(columns, match.groups()))\<close>, and then every value that is a string
  stripped. No group of these patterns is optional, so that every group of a match is a
  string.
\<close>

definition make_record :: "string list \<Rightarrow> string list \<Rightarrow> row" where
  "make_record columns groups = map (\<lambda>(key, v). (key, strip v)) (dict_of (zip columns groups))"

text \<open>
  The loop \<^verbatim>\<open>for line in file\<close>. It ends at the end of the file, or with the exception
  that a read raises; \<open>parsed_data\<close> is what has been appended until then.
\<close>

fun parse_loop ::
  "regex \<Rightarrow> string list \<Rightarrow> read list \<Rightarrow> row list \<Rightarrow> py_exception option \<times> row list" where
  "parse_loop pattern columns [] parsed_data = (None, parsed_data)"
| "parse_loop pattern columns (Fails e # rs) parsed_data = (Some e, parsed_data)"
| "parse_loop pattern columns (Line raw # rs) parsed_data =
     (let line = strip raw
      in if line = [] then parse_loop pattern columns rs parsed_data
         else (case re_match pattern line of
                 None \<Rightarrow> parse_loop pattern columns rs parsed_data
               | Some groups \<Rightarrow>
                   parse_loop pattern columns rs (parsed_data @ [make_record columns groups])))"

text \<open>
  Both handlers print and fall through to \<^verbatim>\<open>return parsed_data\<close>: the function returns
  a list in every case.
\<close>

definition parse_chat_with_pattern ::
  "text_file \<Rightarrow> regex \<Rightarrow> string list \<Rightarrow> row list \<times> message list" where
  "parse_chat_with_pattern f pattern columns =
     (case f of
        CannotOpen e \<Rightarrow>
          ([], [if e = FileNotFoundError then FileNotFoundMsg else UnexpectedError e])
      | Opened rs \<Rightarrow>
          (case parse_loop pattern columns rs [] of
             (None, parsed_data) \<Rightarrow> (parsed_data, [])
           | (Some e, parsed_data) \<Rightarrow>
               (parsed_data,
                [if e = FileNotFoundError then FileNotFoundMsg else UnexpectedError e])))"

section \<open>Vocabulary of the properties\<close>

text \<open>
  The acceptance condition of a candidate on a sample: its test expression matches the
  first line and the share of lines that its capture expression matches exceeds the
  threshold.
\<close>

definition accepts :: "candidate \<Rightarrow> string list \<Rightarrow> bool" where
  "accepts c sample_lines =
     (case sample_lines of
        [] \<Rightarrow> False
      | first # _ \<Rightarrow>
          re_match (test_re c) first \<noteq> None \<and>
          exceeds_threshold (count_matches (capture_re c) sample_lines) (length sample_lines)
            = Inr True)"

text \<open>The format of the first candidate, in the order of the list, that the sample accepts.\<close>

definition selected :: "candidate list \<Rightarrow> string list \<Rightarrow> inferred" where
  "selected cs sample_lines =
     (case find (\<lambda>c. accepts c sample_lines) cs of
        None \<Rightarrow> (None, None)
      | Some c \<Rightarrow> (Some (capture_re c), Some (cols c)))"

text \<open>The records that one physical line contributes: none or one.\<close>

definition line_records :: "regex \<Rightarrow> string list \<Rightarrow> string \<Rightarrow> row list" where
  "line_records pattern columns raw =
     (let line = strip raw
      in if line = [] then []
         else (case re_match pattern line of
                 None \<Rightarrow> []
               | Some groups \<Rightarrow> [make_record columns groups]))"

definition records_of :: "regex \<Rightarrow> string list \<Rightarrow> string list \<Rightarrow> row list" where
  "records_of pattern columns ls = concat (map (line_records pattern columns) ls)"

text \<open>A sample of twenty lines, two of which the last capture expression does not match.\<close>

definition eighteen_of_twenty :: "string list" where
  "eighteen_of_twenty =
     [''a-b:c'', ''a-b:d'', ''a-b:e'', ''a-b:f'', ''a-b:g'', ''a-b:h'', ''a-b:i'', ''a-b:j'',
      ''a-b:k'', ''x'', ''a-b:l'', ''a-b:m'', ''a-b:n'', ''a-b:o'', ''a-b:p'', ''y'',
      ''a-b:q'', ''a-b:r'', ''a-b:s'', ''a-b:t'']"

text \<open>
  The layout of \<^verbatim>\<open>10/5/23, 14:02 - Alice: Hello there\<close> with the user and the text after
  the colon left open. A physical line \<open>raw\<close> has the layout for \<open>user\<close> and \<open>msg\<close>
  when it strips to that line, the user name is not empty, starts with no whitespace and
  has no colon, and the text has no newline. Its record is \<open>dash_record\<close>.
\<close>

definition dash_line :: "string \<Rightarrow> string \<Rightarrow> string" where
  "dash_line user msg = ''10/5/23, 14:02 - '' @ user @ '':'' @ msg"

definition dash_layout :: "string \<times> string \<times> string \<Rightarrow> bool" where
  "dash_layout e =
     (case e of
        (raw, user, msg) \<Rightarrow>
          strip raw = dash_line user msg \<and> user \<noteq> [] \<and> \<not> isspace (hd user) \<and>
          CHR '':'' \<notin> set user \<and> CHR 0x0A \<notin> set msg)"

definition dash_record :: "string \<times> string \<times> string \<Rightarrow> row" where
  "dash_record e =
     (case e of
        (raw, user, msg) \<Rightarrow>
          [(''Date'', ''10/5/23''), (''Time'', ''14:02''), (''User'', strip user),
           (''Message'', strip msg)])"

text \<open>Twenty physical lines of this layout, with their users and texts.\<close>

definition five_entries :: "(string \<times> string \<times> string) list" where
  "five_entries =
     [(''10/5/23, 14:02 - Alice: Hello there'' @ [CHR 0x0A], ''Alice'', '' Hello there''),
      (''10/5/23, 14:02 - Bob: Hi Alice'' @ [CHR 0x0A], ''Bob'', '' Hi Alice''),
      (''10/5/23, 14:02 - Alice: How are you?'' @ [CHR 0x0A], ''Alice'', '' How are you?''),
      (''10/5/23, 14:02 - Carol Ann: Fine - thanks: you?'' @ [CHR 0x0A], ''Carol Ann'',
         '' Fine - thanks: you?''),
      (''10/5/23, 14:02 - Bob: ok'' @ [CHR 0x0A], ''Bob'', '' ok'')]"

definition chat_entries :: "(string \<times> string \<times> string) list" where
  "chat_entries = five_entries @ five_entries @ five_entries @ five_entries"

text \<open>
  The two outcomes of a call of \<open>auto_generate_pattern_on\<close>: it raises an exception that
  a \<open>print\<close> on this standard output raises, or it returns a pair that is \<open>(None, None)\<close>
  or has both parts.
\<close>

definition raised_by_print :: "stdout \<Rightarrow> (py_exception + inferred) \<Rightarrow> bool" where
  "raised_by_print console r = (\<exists>e out m. r = Inl e \<and> console out m = Some e)"

definition all_or_nothing :: "(py_exception + inferred) \<Rightarrow> bool" where
  "all_or_nothing r =
     (\<exists>v. r = Inr v \<and> (v = (None, None) \<or> (\<exists>p columns. v = (Some p, Some columns))))"

section \<open>Lemmas on the text operations and the sampling loop\<close>

lemma strip_Nil: "strip [] = []"
  by (simp add: strip_def)

lemma sample_loop_lines:
  "sample_loop k (map Line ls) acc = Inr (acc @ filter (\<lambda>l. l \<noteq> []) (map strip (take k ls)))"
proof (induction k arbitrary: ls acc)
  case 0
  then show ?case by simp
next
  case (Suc k)
  show ?case
  proof (cases ls)
    case Nil
    with Suc.IH [of "[]" acc] show ?thesis by (simp add: strip_Nil)
  next
    case (Cons l ls')
    with Suc.IH [of ls'] show ?thesis by (simp add: Let_def)
  qed
qed

lemma sample_loop_prefix:
  "k \<le> length ls \<Longrightarrow> sample_loop k (map Line ls @ rs) acc = sample_loop k (map Line ls) acc"
proof (induction k arbitrary: ls acc)
  case 0
  then show ?case by simp
next
  case (Suc k)
  then show ?case by (cases ls) (simp_all add: Let_def)
qed

lemma sample_loop_fails:
  "length ls < k \<Longrightarrow> sample_loop k (map Line ls @ Fails e # rs) acc = Inl e"
proof (induction k arbitrary: ls acc)
  case 0
  then show ?case by simp
next
  case (Suc k)
  then show ?case by (cases ls) (simp_all add: Let_def)
qed

lemma sample_loop_length:
  "sample_loop k rs acc = Inr s \<Longrightarrow> length s \<le> length acc + k"
proof (induction k arbitrary: rs acc)
  case 0
  then show ?case by simp
next
  case (Suc k)
  obtain r rs' where rl: "readline rs = (r, rs')" by (cases "readline rs")
  show ?case
  proof (cases r)
    case (Inl e)
    with rl Suc.prems show ?thesis by simp
  next
    case (Inr raw)
    let ?acc = "if strip raw \<noteq> [] then acc @ [strip raw] else acc"
    from rl Inr Suc.prems have "sample_loop k rs' ?acc = Inr s" by (simp add: Let_def)
    from Suc.IH [OF this] show ?thesis by (simp split: if_splits)
  qed
qed

section \<open>Lemmas on the threshold and the loop over the candidates\<close>

lemma exceeds_threshold_pos: "0 < n \<Longrightarrow> \<exists>b. exceeds_threshold m n = Inr b"
  by (simp add: exceeds_threshold_def)

text \<open>Up to a sample of \<open>10^15\<close> lines the comparison of doubles is the exact one.\<close>

lemma threshold_exact:
  "0 < n \<Longrightarrow> n \<le> 10 ^ 15 \<Longrightarrow> exceeds_threshold m n = Inr (9 * n < 10 * m)"
  unfolding exceeds_threshold_def by (simp, linarith)

lemma threshold_all: "0 < n \<Longrightarrow> exceeds_threshold n n = Inr True"
  by (simp add: exceeds_threshold_def)

lemma candidates_loop_selected:
  "sample_lines \<noteq> [] \<Longrightarrow>
     fst (candidates_loop cs sample_lines out) = Inr (selected cs sample_lines)"
proof (induction cs arbitrary: out)
  case Nil
  then show ?case by (simp add: selected_def)
next
  case (Cons c cs)
  from Cons.prems obtain first rest where s: "sample_lines = first # rest"
    by (cases sample_lines) auto
  obtain b where
    b: "exceeds_threshold (count_matches (capture_re c) sample_lines) (length sample_lines) = Inr b"
    using exceeds_threshold_pos [of "length sample_lines"] Cons.prems by auto
  show ?case
  proof (cases "accepts c sample_lines")
    case True
    then show ?thesis using s b by (simp add: accepts_def selected_def Let_def)
  next
    case False
    have sel: "selected (c # cs) sample_lines = selected cs sample_lines"
      using False by (simp add: selected_def)
    show ?thesis
    proof (cases "re_match (test_re c) first \<noteq> None")
      case True
      with False s b have "b = False" by (auto simp: accepts_def)
      with True s b sel Cons.IH [OF Cons.prems] show ?thesis
        by (simp add: Let_def)
    next
      case False
      with s sel Cons.IH [OF Cons.prems] show ?thesis by simp
    qed
  qed
qed

lemma inference_on_sample:
  "read_sample f n = Inr sample_lines \<Longrightarrow>
     fst (auto_generate_pattern f n) =
       Inr (if sample_lines = [] then (None, None) else selected patterns_to_try sample_lines)"
  by (simp add: auto_generate_pattern_def Let_def candidates_loop_selected)

lemma inference_on_error:
  "read_sample f n = Inl e \<Longrightarrow>
     auto_generate_pattern f n =
       (Inr (None, None),
        [Analyzing n, if e = FileNotFoundError then FileNotFoundMsg else ErrorReadingFile e])"
  by (simp add: auto_generate_pattern_def Let_def)

section \<open>Lemmas on the groups of a match and on the records\<close>

lemma greedy_rep_cont:
  "greedy_rep P mn mx cont n s = Some r \<Longrightarrow> \<exists>k s'. cont k s' = Some r"
  by (induction s arbitrary: n) (auto split: if_splits option.splits)

lemma lazy_rep_cont:
  "lazy_rep P mn mx cont n s = Some r \<Longrightarrow> \<exists>k s'. cont k s' = Some r"
  by (induction s arbitrary: n) (auto split: if_splits option.splits)

lemma run_length:
  "run ts pos s mark caps = Some g \<Longrightarrow>
     length g = length caps + length (filter (\<lambda>t. t = GClose) ts)"
proof (induction ts arbitrary: pos s mark caps)
  case Nil
  then show ?case by simp
next
  case (Cons t ts)
  show ?case
  proof (cases t)
    case Bol
    with Cons show ?thesis by (auto split: if_splits)
  next
    case Eol
    with Cons show ?thesis by (auto split: if_splits)
  next
    case (Lit x)
    with Cons show ?thesis by (auto split: if_splits list.splits)
  next
    case (Rep cl mn mx gr)
    with Cons.prems have "\<exists>k s'. run ts (pos + k) s' mark caps = Some g"
      by (cases gr) (auto dest: greedy_rep_cont lazy_rep_cont)
    with Rep Cons.IH show ?thesis by auto
  next
    case GOpen
    with Cons show ?thesis by auto
  next
    case GClose
    with Cons.prems
    have "run ts pos s mark (caps @ [take (length mark - length s) mark]) = Some g"
      by simp
    from Cons.IH [OF this] GClose show ?thesis by simp
  qed
qed

lemma re_match_length:
  "re_match p line = Some g \<Longrightarrow> length g = length (filter (\<lambda>t. t = GClose) p)"
  unfolding re_match_def by (drule run_length) simp

lemma dict_set_fresh: "k \<notin> fst ` set d \<Longrightarrow> dict_set k v d = d @ [(k, v)]"
  by (induction d) auto

lemma foldl_dict_set_distinct:
  "distinct (map fst (d @ kvs)) \<Longrightarrow> foldl (\<lambda>d (k, v). dict_set k v d) d kvs = d @ kvs"
proof (induction kvs arbitrary: d)
  case Nil
  then show ?case by simp
next
  case (Cons kv kvs)
  obtain k v where kv: "kv = (k, v)" by (cases kv)
  from Cons.prems kv have fresh: "k \<notin> fst ` set d" by auto
  from Cons.prems kv have "distinct (map fst ((d @ [(k, v)]) @ kvs))" by simp
  from Cons.IH [OF this] fresh kv show ?case by (simp add: dict_set_fresh)
qed

lemma dict_of_distinct: "distinct (map fst kvs) \<Longrightarrow> dict_of kvs = kvs"
  unfolding dict_of_def using foldl_dict_set_distinct [of "[]" kvs] by simp

lemma make_record_distinct:
  assumes "distinct columns" and "length groups = length columns"
  shows "make_record columns groups = zip columns (map strip groups)"
proof -
  from assms have "distinct (map fst (zip columns groups))" by simp
  then have "dict_of (zip columns groups) = zip columns groups" by (rule dict_of_distinct)
  then show ?thesis by (simp add: make_record_def zip_map2)
qed

lemma parse_loop_lines:
  "parse_loop p columns (map Line ls) acc = (None, acc @ records_of p columns ls)"
  by (induction ls arbitrary: acc)
     (auto simp: records_of_def line_records_def Let_def split: option.splits)


section \<open>Lemmas on acceptance and on the records of a file\<close>



lemma accepts_iff:
  "sample_lines \<noteq> [] \<Longrightarrow>
     accepts c sample_lines =
       (re_match (test_re c) (hd sample_lines) \<noteq> None \<and>
        exceeds_threshold (count_matches (capture_re c) sample_lines) (length sample_lines)
          = Inr True)"
  by (cases sample_lines) (simp_all add: accepts_def)

lemma count_matches_all:
  "\<forall>l\<in>set ls. re_match p l \<noteq> None \<Longrightarrow> count_matches p ls = length ls"
  by (induction ls) simp_all

lemma line_records_match:
  "strip raw \<noteq> [] \<Longrightarrow> re_match p (strip raw) = Some g \<Longrightarrow>
     line_records p columns raw = [make_record columns g]"
  by (simp add: line_records_def Let_def)

lemma line_records_no_match:
  "re_match p (strip raw) = None \<Longrightarrow> line_records p columns raw = []"
  by (simp add: line_records_def Let_def)

lemma parse_lines:
  "parse_chat_with_pattern (Opened (map Line ls)) p columns = (records_of p columns ls, [])"
  by (simp add: parse_chat_with_pattern_def parse_loop_lines)

lemma records_of_append:
  "records_of p columns (xs @ ys) = records_of p columns xs @ records_of p columns ys"
  by (simp add: records_of_def)

lemma parse_loop_rows:
  "parse_loop p columns rs acc = (e, res) \<Longrightarrow> r \<in> set res \<Longrightarrow>
     r \<in> set acc \<or> (\<exists>line g. re_match p line = Some g \<and> r = make_record columns g)"
proof (induction p columns rs acc rule: parse_loop.induct)
  case (1 pattern columns parsed_data)
  then show ?case by simp
next
  case (2 pattern columns e' rs parsed_data)
  then show ?case by simp
next
  case (3 pattern columns raw rs parsed_data)
  show ?case
  proof (cases "strip raw = []")
    case True
    with 3 show ?thesis by (simp add: Let_def)
  next
    case False
    show ?thesis
    proof (cases "re_match pattern (strip raw)")
      case None
      with False 3 show ?thesis by (simp add: Let_def)
    next
      case (Some g)
      with False 3(4) have
        "parse_loop pattern columns rs (parsed_data @ [make_record columns g]) = (e, res)"
        by (simp add: Let_def)
      from "3.IH"(3) [OF refl False Some this "3.prems"(2)] Some show ?thesis by auto
    qed
  qed
qed

lemma parse_rows:
  assumes "r \<in> set (fst (parse_chat_with_pattern f p columns))"
  shows "\<exists>line g. re_match p line = Some g \<and> r = make_record columns g"
proof (cases f)
  case (CannotOpen e)
  with assms show ?thesis by (simp add: parse_chat_with_pattern_def)
next
  case (Opened rs)
  obtain e res where l: "parse_loop p columns rs [] = (e, res)"
    by (cases "parse_loop p columns rs []")
  with Opened assms have "r \<in> set res"
    by (cases e) (simp_all add: parse_chat_with_pattern_def)
  from parse_loop_rows [OF l this] show ?thesis by simp
qed

lemma strip_dropWhile: "strip (dropWhile isspace s) = strip s"
  by (simp add: strip_def)

section \<open>Lemmas on the candidate formats\<close>

lemmas candidate_defs =
  bracket_datetime_user_def date_time_dash_user_def bracket_timestamp_user_def
  timestamp_dash_user_def

lemma builtin_capture_not_empty:
  "c \<in> set patterns_to_try \<Longrightarrow> re_match (capture_re c) [] = None"
  by (auto simp: patterns_to_try_def re_match_def bracket_datetime_user_def
      date_time_dash_user_def bracket_timestamp_user_def timestamp_dash_user_def)

lemma builtin_shape:
  "c \<in> set patterns_to_try \<Longrightarrow>
     distinct (cols c) \<and>
     length (filter (\<lambda>t. t = GClose) (capture_re c)) = length (cols c) \<and>
     groups_of (capture_re c) = length (cols c)"
  by (auto simp: patterns_to_try_def groups_of_def bracket_datetime_user_def
      date_time_dash_user_def bracket_timestamp_user_def timestamp_dash_user_def)

lemma captures_distinct: "distinct (map capture_re patterns_to_try)"
  by (simp add: patterns_to_try_def candidate_defs)

section \<open>Lemmas on repetitions over a text that is not known\<close>

lemma greedy_rep_stop:
  "s = [] \<or> \<not> P (hd s) \<Longrightarrow>
     greedy_rep P mn mx cont n s = (if mn \<le> n then cont n s else None)"
  by (cases s) auto

lemma greedy_rep_all:
  assumes "\<forall>c\<in>set xs. P c" and "rest = [] \<or> \<not> P (hd rest)"
    and "mn \<le> n + length xs" and "cont (n + length xs) rest = Some r"
  shows "greedy_rep P mn None cont n (xs @ rest) = Some r"
  using assms
proof (induction xs arbitrary: n)
  case Nil
  then show ?case by (simp add: greedy_rep_stop)
next
  case (Cons x xs)
  from Cons.prems have "greedy_rep P mn None cont (Suc n) (xs @ rest) = Some r"
    by (intro Cons.IH) auto
  with Cons.prems show ?case by simp
qed

lemma dropWhile_stop: "dropWhile P s = [] \<or> \<not> P (hd (dropWhile P s))"
  using hd_dropWhile [of P s] by blast

lemma takeWhile_all: "\<forall>c\<in>set (takeWhile P s). P c"
  by (auto dest: set_takeWhileD)

lemma star_dot_end: "run [star Dot] pos s mark caps = Some caps"
proof -
  have "greedy_rep (in_class Dot) 0 None (\<lambda>k s'. run [] (pos + k) s' mark caps) 0
          (takeWhile (in_class Dot) s @ dropWhile (in_class Dot) s) = Some caps"
  proof (rule greedy_rep_all)
    show "\<forall>c\<in>set (takeWhile (in_class Dot) s). in_class Dot c" by (rule takeWhile_all)
    show "dropWhile (in_class Dot) s = [] \<or> \<not> in_class Dot (hd (dropWhile (in_class Dot) s))"
      by (rule dropWhile_stop)
  qed simp_all
  then show ?thesis by simp
qed

lemma space_star_dot_end: "run [star Space, star Dot] pos s mark caps = Some caps"
proof -
  have "greedy_rep (in_class Space) 0 None (\<lambda>k s'. run [star Dot] (pos + k) s' mark caps) 0
          (takeWhile (in_class Space) s @ dropWhile (in_class Space) s) = Some caps"
  proof (rule greedy_rep_all)
    show "\<forall>c\<in>set (takeWhile (in_class Space) s). in_class Space c" by (rule takeWhile_all)
    show "dropWhile (in_class Space) s = [] \<or> \<not> in_class Space (hd (dropWhile (in_class Space) s))"
      by (rule dropWhile_stop)
    show "run [star Dot] (pos + (0 + length (takeWhile (in_class Space) s))) (dropWhile (in_class Space) s) mark caps = Some caps"
      by (rule star_dot_end)
  qed simp
  then show ?thesis by simp
qed

lemma test_tail:
  assumes "u \<noteq> []" and "CHR '':'' \<notin> set u"
  shows "run [plus (NotChar CHR '':''), Lit CHR '':'', star Space, star Dot] pos (u @ CHR '':'' # w) mark caps
           = Some caps"
proof -
  have "greedy_rep (in_class (NotChar CHR '':'')) 1 None
          (\<lambda>k s'. run [Lit CHR '':'', star Space, star Dot] (pos + k) s' mark caps) 0
          (u @ CHR '':'' # w) = Some caps"
  proof (rule greedy_rep_all)
    show "\<forall>c\<in>set u. in_class (NotChar CHR '':'') c" using assms by auto
    show "CHR '':'' # w = [] \<or> \<not> in_class (NotChar CHR '':'') (hd (CHR '':'' # w))" by simp
    show "1 \<le> 0 + length u" using assms by (cases u) auto
    show "run [Lit CHR '':'', star Space, star Dot] (pos + (0 + length u)) (CHR '':'' # w) mark caps = Some caps"
      using space_star_dot_end [of "Suc (pos + length u)" w mark caps] by (simp del: run.simps(5))
  qed
  then show ?thesis by simp
qed

lemma capture_msg:
  assumes "CHR 0x0A \<notin> set w"
  shows "run [star Space, GOpen, star Dot, GClose, Eol] pos w mark caps
           = Some (caps @ [dropWhile isspace w])"
proof -
  let ?m = "dropWhile isspace w"
  have nl: "\<forall>c\<in>set ?m. in_class Dot c"
    using assms by (auto dest: set_dropWhileD)
  have dot: "greedy_rep (in_class Dot) 0 None (\<lambda>k s'. run [GClose, Eol] (p + k) s' ?m caps) 0
               (?m @ []) = Some (caps @ [?m])" for p
    by (rule greedy_rep_all) (use nl in auto)
  have "greedy_rep (in_class Space) 0 None
          (\<lambda>k s'. run [GOpen, star Dot, GClose, Eol] (pos + k) s' mark caps) 0
          (takeWhile isspace w @ ?m) = Some (caps @ [?m])"
  proof (rule greedy_rep_all)
    show "\<forall>c\<in>set (takeWhile isspace w). in_class Space c"
      unfolding in_class.simps by (rule takeWhile_all)
    show "?m = [] \<or> \<not> in_class Space (hd ?m)"
      unfolding in_class.simps by (rule dropWhile_stop)
    show "0 \<le> 0 + length (takeWhile isspace w)" by simp
    show "run [GOpen, star Dot, GClose, Eol] (pos + (0 + length (takeWhile isspace w))) ?m mark caps
            = Some (caps @ [?m])"
      using dot [of "pos + length (takeWhile isspace w)"] by simp
  qed
  then show ?thesis by simp
qed

lemma capture_tail:
  assumes "u \<noteq> []" and "CHR '':'' \<notin> set u" and "CHR 0x0A \<notin> set w"
  shows "run [plus (NotChar CHR '':''), GClose, Lit CHR '':'', star Space, GOpen, star Dot, GClose, Eol]
           pos (u @ CHR '':'' # w) (u @ CHR '':'' # w) caps
           = Some (caps @ [u, dropWhile isspace w])"
proof -
  let ?s = "u @ CHR '':'' # w"
  have "greedy_rep (in_class (NotChar CHR '':'')) 1 None
          (\<lambda>k s'. run [GClose, Lit CHR '':'', star Space, GOpen, star Dot, GClose, Eol] (pos + k) s' ?s caps) 0
          ?s = Some (caps @ [u, dropWhile isspace w])"
  proof (rule greedy_rep_all)
    show "\<forall>c\<in>set u. in_class (NotChar CHR '':'') c" using assms by auto
    show "CHR '':'' # w = [] \<or> \<not> in_class (NotChar CHR '':'') (hd (CHR '':'' # w))" by simp
    show "1 \<le> 0 + length u" using assms by (cases u) auto
    show "run [GClose, Lit CHR '':'', star Space, GOpen, star Dot, GClose, Eol] (pos + (0 + length u))
            (CHR '':'' # w) ?s caps = Some (caps @ [u, dropWhile isspace w])"
      using capture_msg [OF assms(3), of "Suc (pos + length u)" ?s "caps @ [u]"]
      by (simp del: run.simps(5))
  qed
  then show ?thesis by simp
qed

lemmas capture_tail_Suc = capture_tail [unfolded One_nat_def]

lemmas test_tail_Suc = test_tail [unfolded One_nat_def]

lemma run_Rep_Cons:
  "run (Rep cl mn mx g # ts) pos (c # cs) mark caps =
     (case g of
        Greedy \<Rightarrow> greedy_rep (in_class cl) mn mx (\<lambda>k s'. run ts (pos + k) s' mark caps) 0 (c # cs)
      | Lazy \<Rightarrow> lazy_rep (in_class cl) mn mx (\<lambda>k s'. run ts (pos + k) s' mark caps) 0 (c # cs))"
  by simp

section \<open>Lemmas on a standard output that can fail\<close>

lemma py_print_raises: "py_print console out m = Inl e \<Longrightarrow> console out m = Some e"
  by (simp add: py_print_def split: option.splits)

lemma py_print_always: "\<forall>out m. console out m = None \<Longrightarrow> py_print console out m = Inr (out @ [m])"
  by (simp add: py_print_def)

lemma candidates_loop_on_always:
  "\<forall>out m. console out m = None \<Longrightarrow>
     candidates_loop_on console cs sample_lines out = candidates_loop cs sample_lines out"
proof (induction cs arbitrary: out)
  case Nil
  then show ?case by (simp add: py_print_always)
next
  case (Cons c cs)
  then show ?case
    by (simp add: py_print_always Let_def split: list.splits sum.splits bool.splits)
qed

lemma auto_generate_pattern_on_always:
  "\<forall>out m. console out m = None \<Longrightarrow>
     auto_generate_pattern_on console f n = auto_generate_pattern f n"
  by (simp add: auto_generate_pattern_on_def auto_generate_pattern_def py_print_always
      candidates_loop_on_always Let_def split: sum.splits)

lemma candidates_loop_on_outcome:
  "sample_lines \<noteq> [] \<Longrightarrow>
     raised_by_print console (fst (candidates_loop_on console cs sample_lines out)) \<or>
     all_or_nothing (fst (candidates_loop_on console cs sample_lines out))"
proof (induction cs arbitrary: out)
  case Nil
  show ?case
  proof (cases "py_print console out NoConsistentPattern")
    case (Inl e)
    with py_print_raises [OF Inl] show ?thesis by (auto simp: raised_by_print_def)
  next
    case (Inr out1)
    then show ?thesis by (simp add: all_or_nothing_def)
  qed
next
  case (Cons c cs)
  from Cons.prems obtain first rest where s: "sample_lines = first # rest"
    by (cases sample_lines) auto
  obtain b where
    b: "exceeds_threshold (count_matches (capture_re c) sample_lines) (length sample_lines) = Inr b"
    using exceeds_threshold_pos [of "length sample_lines"] Cons.prems by auto
  show ?case
  proof (cases "re_match (test_re c) first \<noteq> None")
    case False
    with s Cons.IH [OF Cons.prems] show ?thesis by simp
  next
    case True
    show ?thesis
    proof (cases "py_print console out (FoundPotential (name c))")
      case (Inl e)
      with py_print_raises [OF Inl] True s show ?thesis by (auto simp: raised_by_print_def)
    next
      case (Inr out1)
      note p1 = Inr
      show ?thesis
      proof (cases b)
        case False
        show ?thesis
        proof (cases "py_print console out1 (Inconsistent (name c))")
          case (Inl e)
          with py_print_raises [OF Inl] True s p1 b False show ?thesis
            by (auto simp: raised_by_print_def Let_def)
        next
          case (Inr out2)
          with True s p1 b False Cons.IH [OF Cons.prems, of out2] show ?thesis
            by (simp add: Let_def)
        qed
      next
        case t: True
        show ?thesis
        proof (cases "py_print console out1 (ConsistentFound (name c))")
          case (Inl e)
          with py_print_raises [OF Inl] True s p1 b t show ?thesis
            by (auto simp: raised_by_print_def Let_def)
        next
          case (Inr out2)
          note p2 = Inr
          show ?thesis
          proof (cases "py_print console out2 (RegexIs (capture_re c))")
            case (Inl e)
            with py_print_raises [OF Inl] True s p1 p2 b t show ?thesis
              by (auto simp: raised_by_print_def Let_def)
          next
            case (Inr out3)
            with True s p1 p2 b t show ?thesis
              by (simp add: all_or_nothing_def Let_def)
          qed
        qed
      qed
    qed
  qed
qed

lemma auto_generate_pattern_on_outcome:
  "raised_by_print console (fst (auto_generate_pattern_on console f n)) \<or>
   all_or_nothing (fst (auto_generate_pattern_on console f n))"
proof (cases "py_print console [] (Analyzing n)")
  case (Inl e)
  with py_print_raises [OF Inl] show ?thesis
    by (auto simp: auto_generate_pattern_on_def raised_by_print_def)
next
  case (Inr out)
  note p0 = Inr
  show ?thesis
  proof (cases "read_sample f n")
    case (Inl e)
    note r = Inl
    let ?m = "if e = FileNotFoundError then FileNotFoundMsg else ErrorReadingFile e"
    show ?thesis
    proof (cases "py_print console out ?m")
      case (Inl e')
      with py_print_raises [OF Inl] p0 r show ?thesis
        by (auto simp: auto_generate_pattern_on_def raised_by_print_def)
    next
      case (Inr out1)
      with p0 r show ?thesis
        by (simp add: auto_generate_pattern_on_def all_or_nothing_def)
    qed
  next
    case (Inr sample_lines)
    note r = Inr
    show ?thesis
    proof (cases "sample_lines = []")
      case True
      show ?thesis
      proof (cases "py_print console out EmptySample")
        case (Inl e')
        with py_print_raises [OF Inl] p0 r True show ?thesis
          by (auto simp: auto_generate_pattern_on_def raised_by_print_def)
      next
        case (Inr out1)
        with p0 r True show ?thesis
          by (simp add: auto_generate_pattern_on_def all_or_nothing_def)
      qed
    next
      case False
      with p0 r candidates_loop_on_outcome [OF False, of console patterns_to_try out]
      show ?thesis by (simp add: auto_generate_pattern_on_def)
    qed
  qed
qed

section \<open>The claims\<close>

subsection \<open>C1: an exception while the lines are read\<close>



subsection \<open>C2: an unreadable input and an unknown format\<close>






subsection \<open>C3: the layout with a date, a time and a dash\<close>

lemma dash_capture:
  assumes "u \<noteq> []" and "\<not> isspace (hd u)" and "CHR '':'' \<notin> set u" and "CHR 0x0A \<notin> set w"
  shows "re_match (capture_re date_time_dash_user) (dash_line u w)
           = Some [''10/5/23'', ''14:02 '', u, dropWhile isspace w]"
  using assms
  by (simp add: re_match_def date_time_dash_user_def dash_line_def run_Rep_Cons
      greedy_rep_stop capture_tail_Suc isspace_def del: run.simps(5))

lemma dash_test:
  assumes "u \<noteq> []" and "\<not> isspace (hd u)" and "CHR '':'' \<notin> set u"
  shows "re_match (test_re date_time_dash_user) (dash_line u w) = Some []"
  using assms
  by (simp add: re_match_def date_time_dash_user_def dash_line_def run_Rep_Cons
      greedy_rep_stop test_tail_Suc isspace_def isdecimal_def del: run.simps(5))

lemma dash_test_bracket:
  "re_match (test_re bracket_datetime_user) (dash_line u w) = None"
  by (simp add: re_match_def bracket_datetime_user_def dash_line_def)

lemma dash_line_not_empty: "dash_line u w \<noteq> []"
  by (simp add: dash_line_def)

lemma dash_line_records:
  assumes "dash_layout e"
  shows "line_records (capture_re date_time_dash_user) (cols date_time_dash_user) (fst e)
           = [dash_record e]"
proof -
  obtain raw u w where e: "e = (raw, u, w)" by (cases e)
  with assms have l: "strip raw = dash_line u w" and u: "u \<noteq> []" "\<not> isspace (hd u)"
    "CHR '':'' \<notin> set u" and w: "CHR 0x0A \<notin> set w"
    by (simp_all add: dash_layout_def)
  have t: "strip ''14:02 '' = ''14:02''" "strip ''10/5/23'' = ''10/5/23''"
    by (simp_all add: strip_def isspace_def)
  have "make_record (cols date_time_dash_user) [''10/5/23'', ''14:02 '', u, dropWhile isspace w]
          = dash_record e"
    unfolding e dash_record_def
    by (simp add: date_time_dash_user_def make_record_def dict_of_def t strip_dropWhile)
  with l dash_capture [OF u w] dash_line_not_empty [of u w] e show ?thesis
    by (simp add: line_records_def)
qed

lemma dash_records:
  "\<forall>e\<in>set entries. dash_layout e \<Longrightarrow>
     records_of (capture_re date_time_dash_user) (cols date_time_dash_user) (map fst entries)
       = map dash_record entries"
  by (induction entries) (simp_all add: records_of_def dash_line_records)

lemma dash_sample_accepted:
  assumes "sample_lines \<noteq> []"
    and "\<forall>l\<in>set sample_lines. \<exists>raw u w. dash_layout (raw, u, w) \<and> l = dash_line u w"
  shows "selected patterns_to_try sample_lines
           = (Some (capture_re date_time_dash_user), Some (cols date_time_dash_user))"
proof -
  from assms(1) obtain first rest where s: "sample_lines = first # rest"
    by (cases sample_lines) auto
  with assms(2) obtain raw u w where f: "dash_layout (raw, u, w)" "first = dash_line u w"
    by auto
  have 1: "\<not> accepts bracket_datetime_user sample_lines"
    using s f by (simp add: accepts_def dash_test_bracket)
  have t: "re_match (test_re date_time_dash_user) first \<noteq> None"
    using f by (simp add: dash_layout_def dash_test)
  have "\<forall>l\<in>set sample_lines. re_match (capture_re date_time_dash_user) l \<noteq> None"
    using assms(2) by (auto simp: dash_layout_def dash_capture)
  then have "count_matches (capture_re date_time_dash_user) sample_lines = length sample_lines"
    by (rule count_matches_all)
  with t assms(1) have 2: "accepts date_time_dash_user sample_lines"
    by (simp add: accepts_iff threshold_all s del: count_matches.simps)
  from 1 2 show ?thesis by (simp add: selected_def patterns_to_try_def)
qed

lemma dash_inference:
  assumes "entries \<noteq> []" and "\<forall>e\<in>set entries. dash_layout e"
    and "20 \<le> length entries \<or> rest = []"
  shows "fst (auto_generate_pattern (Opened (map Line (map fst entries @ rest))) 20)
           = Inr (Some (capture_re date_time_dash_user), Some (cols date_time_dash_user))"
proof -
  let ?S = "map (\<lambda>(raw, u, w). dash_line u w) (take 20 entries)"
  from assms(3) have tk: "take 20 (map fst entries @ rest) = map fst (take 20 entries)"
    by (auto simp: take_map)
  have "strip (fst e) = (case e of (raw, u, w) \<Rightarrow> dash_line u w)"
    if "e \<in> set (take 20 entries)" for e
  proof -
    from that have "e \<in> set entries" by (rule in_set_takeD)
    with assms(2) have "dash_layout e" by blast
    then show ?thesis by (cases e) (simp add: dash_layout_def)
  qed
  then have st: "map strip (map fst (take 20 entries)) = ?S"
    by simp
  have fl: "filter (\<lambda>l. l \<noteq> []) ?S = ?S"
    by (auto simp: filter_id_conv dash_line_not_empty)
  have "sample_loop 20 (map Line (map fst entries @ rest)) []
          = Inr ([] @ filter (\<lambda>l. l \<noteq> []) (map strip (take 20 (map fst entries @ rest))))"
    by (rule sample_loop_lines)
  then have "sample_loop 20 (map Line (map fst entries @ rest)) [] = Inr ?S"
    by (simp only: tk st fl append_Nil)
  then have
    r: "read_sample (Opened (map Line (map fst entries @ rest))) 20 = Inr ?S"
    by (simp add: read_sample_def)
  from assms(1) have ne: "?S \<noteq> []" by simp
  have "\<forall>l\<in>set ?S. \<exists>raw u w. dash_layout (raw, u, w) \<and> l = dash_line u w"
  proof
    fix l assume "l \<in> set ?S"
    then obtain raw u w where e: "(raw, u, w) \<in> set (take 20 entries)" and l: "l = dash_line u w"
      by auto
    from e have "(raw, u, w) \<in> set entries" by (rule in_set_takeD)
    with assms(2) have "dash_layout (raw, u, w)" by blast
    with l show "\<exists>raw u w. dash_layout (raw, u, w) \<and> l = dash_line u w" by blast
  qed
  from dash_sample_accepted [OF ne this] inference_on_sample [OF r] ne
  show ?thesis by simp
qed

lemma dash_extraction:
  assumes "\<forall>e\<in>set entries. dash_layout e"
  shows "parse_chat_with_pattern (Opened (map Line (map fst entries @ rest)))
           (capture_re date_time_dash_user) (cols date_time_dash_user)
         = (map dash_record entries
              @ records_of (capture_re date_time_dash_user) (cols date_time_dash_user) rest, [])"
  using parse_lines [of "map fst entries @ rest"] dash_records [OF assms]
  by (simp add: records_of_append)

text \<open>
  C3, as the code has it. For an input whose first twenty lines (all its lines, if it has
  fewer) have the layout of \<^verbatim>\<open>10/5/23, 14:02 - Alice: Hello there\<close>, with varying users
  and messages, inference with a sample size of 20 selects the second candidate,
  \<open>date_time_dash_user\<close>, whose columns are Date, Time, User and Message; extraction
  with it returns, for every line of the layout, the record of Date \<open>10/5/23\<close>, Time
  \<open>14:02\<close>, the stripped user and the stripped message, in the order of the lines,
  followed by the records of the lines after them.
\<close>

theorem dash_layout_is_date_time_format:
  assumes "entries \<noteq> []" and "\<forall>e\<in>set entries. dash_layout e"
    and "20 \<le> length entries \<or> rest = []"
  shows "fst (auto_generate_pattern (Opened (map Line (map fst entries @ rest))) 20)
           = Inr (Some (capture_re date_time_dash_user), Some (cols date_time_dash_user)) \<and>
         cols date_time_dash_user = [''Date'', ''Time'', ''User'', ''Message''] \<and>
         parse_chat_with_pattern (Opened (map Line (map fst entries @ rest)))
           (capture_re date_time_dash_user) (cols date_time_dash_user)
         = (map dash_record entries
              @ records_of (capture_re date_time_dash_user) (cols date_time_dash_user) rest, [])"
  using dash_inference [OF assms] dash_extraction [OF assms(2)]
  by (simp add: date_time_dash_user_def)

lemma five_entries_layout: "\<forall>e\<in>set five_entries. dash_layout e"
  by (simp add: five_entries_def dash_layout_def dash_line_def strip_def isspace_def)

lemma chat_entries_layout: "\<forall>e\<in>set chat_entries. dash_layout e"
  using five_entries_layout by (auto simp: chat_entries_def)

lemma chat_entries_length: "length chat_entries = 20"
  by (simp add: chat_entries_def five_entries_def)

theorem dash_layout_is_date_time_format_witness:
  "chat_entries \<noteq> [] \<and> list_all dash_layout chat_entries \<and> 20 \<le> length chat_entries \<and>
   fst (auto_generate_pattern (Opened (map Line (map fst chat_entries @ [''bye'']))) 20)
     = Inr (Some (capture_re date_time_dash_user), Some (cols date_time_dash_user)) \<and>
   fst (parse_chat_with_pattern (Opened (map Line (map fst chat_entries @ [''bye''])))
          (capture_re date_time_dash_user) (cols date_time_dash_user))
     = map dash_record chat_entries"
proof -
  have ne: "chat_entries \<noteq> []" using chat_entries_length by auto
  have l: "20 \<le> length chat_entries \<or> [''bye''] = []" by (simp add: chat_entries_length)
  have b: "records_of (capture_re date_time_dash_user) (cols date_time_dash_user) [''bye''] = []"
    by (simp add: records_of_def line_records_def strip_def isspace_def re_match_def
        date_time_dash_user_def)
  note t = dash_layout_is_date_time_format [OF ne chat_entries_layout l]
  from t have 1:
    "fst (auto_generate_pattern (Opened (map Line (map fst chat_entries @ [''bye'']))) 20)
       = Inr (Some (capture_re date_time_dash_user), Some (cols date_time_dash_user))"
    by (rule conjunct1)
  from t [THEN conjunct2, THEN conjunct2] have
    "fst (parse_chat_with_pattern (Opened (map Line (map fst chat_entries @ [''bye''])))
          (capture_re date_time_dash_user) (cols date_time_dash_user))
       = map dash_record chat_entries
           @ records_of (capture_re date_time_dash_user) (cols date_time_dash_user) [''bye'']"
    by (simp only: fst_conv)
  then have 2:
    "fst (parse_chat_with_pattern (Opened (map Line (map fst chat_entries @ [''bye''])))
          (capture_re date_time_dash_user) (cols date_time_dash_user))
       = map dash_record chat_entries"
    by (simp only: b append_Nil2)
  have 3: "list_all dash_layout chat_entries"
    using chat_entries_layout by (simp only: list_all_iff)
  have 4: "20 \<le> length chat_entries" by (simp add: chat_entries_length)
  from ne 3 4 1 2 show ?thesis by (intro conjI)
qed

text \<open>
  The claim as it is written fails: on twenty such lines inference returns the capture
  expression of \<open>date_time_dash_user\<close> and not that of \<open>timestamp_dash_user\<close>, and the
  records have the fields Date, Time, User and Message, none of them Timestamp.
\<close>

theorem dash_layout_is_timestamp_format_counterexample:
  "length (map fst chat_entries) = 20 \<and>
   hd (map fst chat_entries) = ''10/5/23, 14:02 - Alice: Hello there'' @ [CHR 0x0A] \<and>
   fst (auto_generate_pattern (Opened (map Line (map fst chat_entries))) 20)
     = Inr (Some (capture_re date_time_dash_user), Some [''Date'', ''Time'', ''User'', ''Message'']) \<and>
   capture_re date_time_dash_user \<noteq> capture_re timestamp_dash_user \<and>
   hd (fst (parse_chat_with_pattern (Opened (map Line (map fst chat_entries)))
          (capture_re date_time_dash_user) [''Date'', ''Time'', ''User'', ''Message'']))
     = [(''Date'', ''10/5/23''), (''Time'', ''14:02''), (''User'', ''Alice''),
        (''Message'', ''Hello there'')]"
proof -
  have ne: "chat_entries \<noteq> []" using chat_entries_length by auto
  have c: "cols date_time_dash_user = [''Date'', ''Time'', ''User'', ''Message'']"
    by (simp add: date_time_dash_user_def)
  have 1: "fst (auto_generate_pattern (Opened (map Line (map fst chat_entries))) 20)
     = Inr (Some (capture_re date_time_dash_user), Some [''Date'', ''Time'', ''User'', ''Message''])"
    using dash_inference [OF ne chat_entries_layout, of "[]"] by (simp add: c)
  have 2: "capture_re date_time_dash_user \<noteq> capture_re timestamp_dash_user"
    by (simp add: date_time_dash_user_def timestamp_dash_user_def)
  have "hd (map dash_record chat_entries)
     = [(''Date'', ''10/5/23''), (''Time'', ''14:02''), (''User'', ''Alice''),
        (''Message'', ''Hello there'')]"
    by (simp add: chat_entries_def five_entries_def dash_record_def strip_def isspace_def)
  with dash_extraction [OF chat_entries_layout, of "[]"]
  have 3: "hd (fst (parse_chat_with_pattern (Opened (map Line (map fst chat_entries)))
          (capture_re date_time_dash_user) [''Date'', ''Time'', ''User'', ''Message'']))
     = [(''Date'', ''10/5/23''), (''Time'', ''14:02''), (''User'', ''Alice''),
        (''Message'', ''Hello there'')]"
    by (simp add: c records_of_def)
  have 4: "hd (map fst chat_entries) = ''10/5/23, 14:02 - Alice: Hello there'' @ [CHR 0x0A]"
    by (simp add: chat_entries_def five_entries_def)
  from 1 2 3 4 chat_entries_length show ?thesis by simp
qed

subsection \<open>C4: the threshold is strict\<close>

text \<open>
  C4. For every candidate and every sample of twenty lines of which its capture
  expression matches exactly eighteen, the candidate is not accepted, and the loop returns
  what the candidates after it return.
\<close>

theorem ninety_percent_is_rejected:
  assumes "length sample_lines = 20"
    and "count_matches (capture_re c) sample_lines = 18"
  shows "\<not> accepts c sample_lines \<and>
         fst (candidates_loop (c # cs) sample_lines out)
           = fst (candidates_loop cs sample_lines out')"
proof -
  from assms(1) have ne: "sample_lines \<noteq> []" by auto
  have t: "exceeds_threshold 18 20 = Inr False"
    by (simp add: exceeds_threshold_def)
  with assms have na: "\<not> accepts c sample_lines"
    by (simp add: accepts_iff [OF ne])
  then have "selected (c # cs) sample_lines = selected cs sample_lines"
    by (simp add: selected_def)
  with na candidates_loop_selected [OF ne, of "c # cs" out]
    candidates_loop_selected [OF ne, of cs out']
  show ?thesis by (simp del: candidates_loop.simps)
qed

lemma eighteen_match:
  "count_matches (capture_re timestamp_dash_user) eighteen_of_twenty = 18"
  by (simp add: eighteen_of_twenty_def timestamp_dash_user_def re_match_def isspace_def)

theorem ninety_percent_is_rejected_witness:
  "length eighteen_of_twenty = 20 \<and>
   count_matches (capture_re timestamp_dash_user) eighteen_of_twenty = 18 \<and>
   re_match (test_re timestamp_dash_user) (hd eighteen_of_twenty) \<noteq> None \<and>
   \<not> accepts timestamp_dash_user eighteen_of_twenty \<and>
   fst (candidates_loop [timestamp_dash_user] eighteen_of_twenty [])
     = Inr (None, None)"
proof -
  have l: "length eighteen_of_twenty = 20" by (simp add: eighteen_of_twenty_def)
  have t: "re_match (test_re timestamp_dash_user) (hd eighteen_of_twenty) \<noteq> None"
    by (simp add: eighteen_of_twenty_def timestamp_dash_user_def re_match_def isspace_def)
  from ninety_percent_is_rejected [OF l eighteen_match, of "[]" "[]" "[]"] l eighteen_match t
  show ?thesis by simp
qed

subsection \<open>C5: a sample of one line\<close>

text \<open>
  C5, as the code has it. On a sample of one line, a candidate that the loop reaches is
  accepted if and only if the line passes its test expression and matches its capture
  expression; otherwise the loop returns what the candidates after it return.
\<close>

theorem single_line_sample:
  "accepts c [line] = (re_match (test_re c) line \<noteq> None \<and> re_match (capture_re c) line \<noteq> None) \<and>
   fst (candidates_loop (c # cs) [line] out) =
     (if re_match (test_re c) line \<noteq> None \<and> re_match (capture_re c) line \<noteq> None
      then Inr (Some (capture_re c), Some (cols c))
      else fst (candidates_loop cs [line] out'))"
proof -
  have a: "accepts c [line] =
      (re_match (test_re c) line \<noteq> None \<and> re_match (capture_re c) line \<noteq> None)"
    by (simp add: accepts_def exceeds_threshold_def)
  have "fst (candidates_loop (c # cs) [line] out) = Inr (selected (c # cs) [line])"
    by (rule candidates_loop_selected) simp
  moreover have "fst (candidates_loop cs [line] out') = Inr (selected cs [line])"
    by (rule candidates_loop_selected) simp
  moreover have "selected (c # cs) [line] =
      (if accepts c [line] then (Some (capture_re c), Some (cols c)) else selected cs [line])"
    by (simp add: selected_def)
  ultimately show ?thesis using a by simp
qed

lemma comma_line_sample:
  "read_sample (Opened [Line ''a, b - c: d'']) 20 = Inr [''a, b - c: d'']"
  using sample_loop_lines [of 20 "[''a, b - c: d'']" "[]"]
  by (simp add: read_sample_def strip_def isspace_def)

lemma comma_line_tests:
  "re_match (test_re bracket_datetime_user) ''a, b - c: d'' = None"
  "re_match (test_re date_time_dash_user) ''a, b - c: d'' = None"
  "re_match (test_re bracket_timestamp_user) ''a, b - c: d'' = None"
  "re_match (test_re timestamp_dash_user) ''a, b - c: d'' = Some []"
  by (simp_all add: candidate_defs re_match_def isspace_def isdecimal_def)

lemma comma_line_captures:
  "re_match (capture_re date_time_dash_user) ''a, b - c: d'' = Some [''a'', ''b '', ''c'', ''d'']"
  "re_match (capture_re timestamp_dash_user) ''a, b - c: d'' = Some [''a, b'', ''c'', ''d'']"
  by (simp_all add: candidate_defs re_match_def isspace_def isdecimal_def)

text \<open>
  The claim as it is written fails: the capture expression of \<open>date_time_dash_user\<close>
  matches this line, but its test expression asks for digits, the candidate is passed over
  and the last candidate is returned.
\<close>

theorem single_line_sample_counterexample:
  "re_match (capture_re date_time_dash_user) ''a, b - c: d''
     = Some [''a'', ''b '', ''c'', ''d''] \<and>
   \<not> accepts date_time_dash_user [''a, b - c: d''] \<and>
   fst (candidates_loop [date_time_dash_user] [''a, b - c: d''] []) = Inr (None, None) \<and>
   fst (auto_generate_pattern (Opened [Line ''a, b - c: d'']) 20)
     = Inr (Some (capture_re timestamp_dash_user), Some (cols timestamp_dash_user))"
proof -
  have 1: "\<not> accepts date_time_dash_user [''a, b - c: d'']"
    by (simp add: accepts_def comma_line_tests)
  have 2: "fst (candidates_loop [date_time_dash_user] [''a, b - c: d''] []) = Inr (None, None)"
    by (simp add: comma_line_tests)
  have "selected patterns_to_try [''a, b - c: d'']
          = (Some (capture_re timestamp_dash_user), Some (cols timestamp_dash_user))"
    by (simp add: selected_def patterns_to_try_def accepts_def comma_line_tests
        comma_line_captures exceeds_threshold_def)
  with inference_on_sample [OF comma_line_sample]
  have 3: "fst (auto_generate_pattern (Opened [Line ''a, b - c: d'']) 20)
     = Inr (Some (capture_re timestamp_dash_user), Some (cols timestamp_dash_user))"
    by simp
  from 1 2 3 comma_line_captures(1) show ?thesis by simp
qed

subsection \<open>C6: the order of the candidates\<close>

text \<open>
  C6, as the code has it. When the sample satisfies the acceptance condition of two
  candidates, inference returns the earliest candidate of the table that the sample
  accepts: a candidate at or before the earlier of the two (the earlier one itself when
  none before it is acceptable), and never the later one.
\<close>

theorem earliest_acceptable_is_selected:
  assumes "read_sample f n = Inr sample_lines"
    and "i < j" and "j < length patterns_to_try"
    and "accepts (patterns_to_try ! i) sample_lines"
    and "accepts (patterns_to_try ! j) sample_lines"
  shows "(\<exists>k\<le>i.
            accepts (patterns_to_try ! k) sample_lines \<and>
            (\<forall>k'<k. \<not> accepts (patterns_to_try ! k') sample_lines) \<and>
            fst (auto_generate_pattern f n)
              = Inr (Some (capture_re (patterns_to_try ! k)), Some (cols (patterns_to_try ! k))) \<and>
            fst (auto_generate_pattern f n)
              \<noteq> Inr (Some (capture_re (patterns_to_try ! j)),
                      Some (cols (patterns_to_try ! j)))) \<and>
         ((\<forall>k<i. \<not> accepts (patterns_to_try ! k) sample_lines) \<longrightarrow>
            fst (auto_generate_pattern f n)
              = Inr (Some (capture_re (patterns_to_try ! i)), Some (cols (patterns_to_try ! i))))"
proof (rule conjI)
  let ?P = "\<lambda>c. accepts c sample_lines"
  from assms(4) have ne: "sample_lines \<noteq> []" by (auto simp: accepts_def)
  from assms(2,3) have i: "i < length patterns_to_try" by simp
  from nth_mem [OF i] assms(4) have "find ?P patterns_to_try \<noteq> None"
    unfolding find_None_iff by blast
  then obtain c where c: "find ?P patterns_to_try = Some c" by auto
  then obtain k where k: "k < length patterns_to_try" "?P (patterns_to_try ! k)"
    "c = patterns_to_try ! k" "\<forall>k'<k. \<not> ?P (patterns_to_try ! k')"
    unfolding find_Some_iff by blast
  from k(4) assms(4) have ki: "k \<le> i" by (meson not_le_imp_less)
  from c k(3) ne inference_on_sample [OF assms(1)]
  have r: "fst (auto_generate_pattern f n)
             = Inr (Some (capture_re (patterns_to_try ! k)), Some (cols (patterns_to_try ! k)))"
    by (simp add: selected_def)
  from ki assms(2) have "k \<noteq> j" by simp
  with k(1) assms(3) captures_distinct
  have "capture_re (patterns_to_try ! k) \<noteq> capture_re (patterns_to_try ! j)"
    by (simp add: distinct_conv_nth)
  with r k ki show "\<exists>k\<le>i.
           accepts (patterns_to_try ! k) sample_lines \<and>
           (\<forall>k'<k. \<not> accepts (patterns_to_try ! k') sample_lines) \<and>
           fst (auto_generate_pattern f n)
             = Inr (Some (capture_re (patterns_to_try ! k)), Some (cols (patterns_to_try ! k))) \<and>
           fst (auto_generate_pattern f n)
             \<noteq> Inr (Some (capture_re (patterns_to_try ! j)), Some (cols (patterns_to_try ! j)))"
    by auto
  show "(\<forall>k<i. \<not> accepts (patterns_to_try ! k) sample_lines) \<longrightarrow>
           fst (auto_generate_pattern f n)
             = Inr (Some (capture_re (patterns_to_try ! i)), Some (cols (patterns_to_try ! i)))"
  proof
    assume "\<forall>k<i. \<not> accepts (patterns_to_try ! k) sample_lines"
    with k(2) ki have "k = i" by (cases "k = i") auto
    with r show "fst (auto_generate_pattern f n)
             = Inr (Some (capture_re (patterns_to_try ! i)), Some (cols (patterns_to_try ! i)))"
      by simp
  qed
qed

lemma iso_line_sample:
  "read_sample (Opened [Line ''[2023-05-10, 14:02] Alice: hi'']) 20
     = Inr [''[2023-05-10, 14:02] Alice: hi'']"
  using sample_loop_lines [of 20 "[''[2023-05-10, 14:02] Alice: hi'']" "[]"]
  by (simp add: read_sample_def strip_def isspace_def)

lemma iso_line_tests:
  "re_match (test_re bracket_datetime_user) ''[2023-05-10, 14:02] Alice: hi'' = Some []"
  "re_match (test_re bracket_timestamp_user) ''[2023-05-10, 14:02] Alice: hi'' = Some []"
  "re_match (test_re timestamp_dash_user) ''[2023-05-10, 14:02] Alice: hi'' = Some []"
  by (simp_all add: candidate_defs re_match_def isspace_def isdecimal_def)

lemma iso_line_captures:
  "re_match (capture_re bracket_datetime_user) ''[2023-05-10, 14:02] Alice: hi''
     = Some [''2023-05-10'', ''14:02'', ''Alice'', ''hi'']"
  "re_match (capture_re bracket_timestamp_user) ''[2023-05-10, 14:02] Alice: hi''
     = Some [''2023-05-10, 14:02'', ''Alice'', ''hi'']"
  "re_match (capture_re timestamp_dash_user) ''[2023-05-10, 14:02] Alice: hi''
     = Some [''[2023'', ''05-10, 14'', ''02] Alice: hi'']"
  by (simp_all add: candidate_defs re_match_def isspace_def isdecimal_def)

lemma iso_line_accepted:
  "accepts bracket_datetime_user [''[2023-05-10, 14:02] Alice: hi'']"
  "accepts bracket_timestamp_user [''[2023-05-10, 14:02] Alice: hi'']"
  "accepts timestamp_dash_user [''[2023-05-10, 14:02] Alice: hi'']"
  by (simp_all add: accepts_def iso_line_tests iso_line_captures exceeds_threshold_def)

text \<open>
  The claim as it is written fails: this sample satisfies the acceptance conditions of the
  third candidate and of the later fourth one, and inference returns neither but the
  first candidate, which the sample satisfies too.
\<close>

theorem stricter_of_two_counterexample:
  "accepts bracket_timestamp_user [''[2023-05-10, 14:02] Alice: hi''] \<and>
   accepts timestamp_dash_user [''[2023-05-10, 14:02] Alice: hi''] \<and>
   fst (auto_generate_pattern (Opened [Line ''[2023-05-10, 14:02] Alice: hi'']) 20)
     = Inr (Some (capture_re bracket_datetime_user), Some (cols bracket_datetime_user)) \<and>
   cols bracket_datetime_user = [''Date'', ''Time'', ''User'', ''Message''] \<and>
   cols bracket_timestamp_user = [''Timestamp'', ''User'', ''Message'']"
proof -
  have "selected patterns_to_try [''[2023-05-10, 14:02] Alice: hi'']
          = (Some (capture_re bracket_datetime_user), Some (cols bracket_datetime_user))"
    by (simp add: selected_def patterns_to_try_def iso_line_accepted)
  with inference_on_sample [OF iso_line_sample] iso_line_accepted
  show ?thesis by (simp add: candidate_defs)
qed

theorem earliest_acceptable_is_selected_witness:
  "read_sample (Opened [Line ''[2023-05-10, 14:02] Alice: hi'']) 20
     = Inr [''[2023-05-10, 14:02] Alice: hi''] \<and>
   (0::nat) < 2 \<and> 2 < length patterns_to_try \<and>
   accepts (patterns_to_try ! 0) [''[2023-05-10, 14:02] Alice: hi''] \<and>
   accepts (patterns_to_try ! 2) [''[2023-05-10, 14:02] Alice: hi''] \<and>
   fst (auto_generate_pattern (Opened [Line ''[2023-05-10, 14:02] Alice: hi'']) 20)
     = Inr (Some (capture_re (patterns_to_try ! 0)), Some (cols (patterns_to_try ! 0)))"
proof -
  have l: "(0::nat) < 2" "2 < length patterns_to_try"
    by (simp_all add: patterns_to_try_def)
  have a: "accepts (patterns_to_try ! 0) [''[2023-05-10, 14:02] Alice: hi'']"
    "accepts (patterns_to_try ! 2) [''[2023-05-10, 14:02] Alice: hi'']"
    by (simp_all add: patterns_to_try_def iso_line_accepted)
  from earliest_acceptable_is_selected [OF iso_line_sample l a]
  have "fst (auto_generate_pattern (Opened [Line ''[2023-05-10, 14:02] Alice: hi'']) 20)
     = Inr (Some (capture_re (patterns_to_try ! 0)), Some (cols (patterns_to_try ! 0)))"
    by auto
  with iso_line_sample l a show ?thesis by simp
qed

subsection \<open>C7: lines that do not match are skipped\<close>

text \<open>
  C7. For every chosen format and every file of five lines of which the capture
  expression matches the first, third and fifth (stripped) and not the second and fourth,
  which may be empty, extraction returns exactly the three records of lines 1, 3 and 5, in
  this order, and prints nothing. In general the records of a file that is read to its end
  are those of its lines, one after the other, a line that is empty or does not match
  giving none.
\<close>

theorem extraction_skips_and_keeps_order:
  assumes "c \<in> set patterns_to_try"
    and "re_match (capture_re c) (strip l1) = Some g1"
    and "re_match (capture_re c) (strip l2) = None"
    and "re_match (capture_re c) (strip l3) = Some g3"
    and "re_match (capture_re c) (strip l4) = None"
    and "re_match (capture_re c) (strip l5) = Some g5"
  shows "parse_chat_with_pattern (Opened [Line l1, Line l2, Line l3, Line l4, Line l5])
           (capture_re c) (cols c)
         = ([make_record (cols c) g1, make_record (cols c) g3, make_record (cols c) g5], []) \<and>
         parse_chat_with_pattern (Opened (map Line ls)) p columns = (records_of p columns ls, [])"
proof -
  have ne: "strip l \<noteq> []" if "re_match (capture_re c) (strip l) = Some g" for l g
    using that builtin_capture_not_empty [OF assms(1)] by auto
  have 1: "line_records (capture_re c) (cols c) l1 = [make_record (cols c) g1]"
    using assms(2) ne [OF assms(2)] by (rule line_records_match [rotated])
  have 3: "line_records (capture_re c) (cols c) l3 = [make_record (cols c) g3]"
    using assms(4) ne [OF assms(4)] by (rule line_records_match [rotated])
  have 5: "line_records (capture_re c) (cols c) l5 = [make_record (cols c) g5]"
    using assms(6) ne [OF assms(6)] by (rule line_records_match [rotated])
  have 2: "line_records (capture_re c) (cols c) l2 = []"
    using assms(3) by (rule line_records_no_match)
  have 4: "line_records (capture_re c) (cols c) l4 = []"
    using assms(5) by (rule line_records_no_match)
  have "parse_chat_with_pattern (Opened (map Line [l1, l2, l3, l4, l5])) (capture_re c) (cols c)
          = (records_of (capture_re c) (cols c) [l1, l2, l3, l4, l5], [])"
    by (rule parse_lines)
  with 1 2 3 4 5 show ?thesis by (simp add: records_of_def parse_lines)
qed

lemma noise_line_no_match:
  "re_match (capture_re bracket_timestamp_user) ''Messages are encrypted'' = None"
  by (simp add: bracket_timestamp_user_def re_match_def isspace_def)

lemma bracket_line_match:
  "re_match (capture_re bracket_timestamp_user) ''[10:01] Al: hi''
     = Some [''10:01'', ''Al'', ''hi'']"
  "re_match (capture_re bracket_timestamp_user) ''[10:02] Al: hi''
     = Some [''10:02'', ''Al'', ''hi'']"
  "re_match (capture_re bracket_timestamp_user) ''[10:03] Al: hi''
     = Some [''10:03'', ''Al'', ''hi'']"
  by (simp_all add: bracket_timestamp_user_def re_match_def isspace_def)

theorem extraction_skips_and_keeps_order_witness:
  "bracket_timestamp_user \<in> set patterns_to_try \<and>
   re_match (capture_re bracket_timestamp_user) (strip (''[10:01] Al: hi'' @ [CHR 0x0A]))
     = Some [''10:01'', ''Al'', ''hi''] \<and>
   re_match (capture_re bracket_timestamp_user) (strip (''Messages are encrypted'' @ [CHR 0x0A]))
     = None \<and>
   re_match (capture_re bracket_timestamp_user) (strip (''[10:02] Al: hi'' @ [CHR 0x0A]))
     = Some [''10:02'', ''Al'', ''hi''] \<and>
   re_match (capture_re bracket_timestamp_user) (strip [CHR 0x0A]) = None \<and>
   re_match (capture_re bracket_timestamp_user) (strip ''[10:03] Al: hi'')
     = Some [''10:03'', ''Al'', ''hi''] \<and>
   parse_chat_with_pattern
     (Opened [Line (''[10:01] Al: hi'' @ [CHR 0x0A]),
              Line (''Messages are encrypted'' @ [CHR 0x0A]),
              Line (''[10:02] Al: hi'' @ [CHR 0x0A]),
              Line [CHR 0x0A],
              Line ''[10:03] Al: hi''])
     (capture_re bracket_timestamp_user) (cols bracket_timestamp_user)
   = ([[(''Timestamp'', ''10:01''), (''User'', ''Al''), (''Message'', ''hi'')],
       [(''Timestamp'', ''10:02''), (''User'', ''Al''), (''Message'', ''hi'')],
       [(''Timestamp'', ''10:03''), (''User'', ''Al''), (''Message'', ''hi'')]], [])"
proof -
  have c: "bracket_timestamp_user \<in> set patterns_to_try"
    by (simp add: patterns_to_try_def)
  have s1: "strip (''[10:01] Al: hi'' @ [CHR 0x0A]) = ''[10:01] Al: hi''"
    and s2: "strip (''Messages are encrypted'' @ [CHR 0x0A]) = ''Messages are encrypted''"
    and s3: "strip (''[10:02] Al: hi'' @ [CHR 0x0A]) = ''[10:02] Al: hi''"
    and s4: "strip [CHR 0x0A] = []"
    and s5: "strip ''[10:03] Al: hi'' = ''[10:03] Al: hi''"
    by (simp_all add: strip_def isspace_def)
  have 1: "re_match (capture_re bracket_timestamp_user) (strip (''[10:01] Al: hi'' @ [CHR 0x0A]))
     = Some [''10:01'', ''Al'', ''hi'']"
    unfolding s1 by (rule bracket_line_match)
  have 2: "re_match (capture_re bracket_timestamp_user) (strip (''Messages are encrypted'' @ [CHR 0x0A]))
     = None"
    unfolding s2 by (rule noise_line_no_match)
  have 3: "re_match (capture_re bracket_timestamp_user) (strip (''[10:02] Al: hi'' @ [CHR 0x0A]))
     = Some [''10:02'', ''Al'', ''hi'']"
    unfolding s3 by (rule bracket_line_match)
  have 4: "re_match (capture_re bracket_timestamp_user) (strip [CHR 0x0A]) = None"
    unfolding s4 by (rule builtin_capture_not_empty [OF c])
  have 5: "re_match (capture_re bracket_timestamp_user) (strip ''[10:03] Al: hi'')
     = Some [''10:03'', ''Al'', ''hi'']"
    unfolding s5 by (rule bracket_line_match)
  have r: "make_record (cols bracket_timestamp_user) [t, ''Al'', ''hi'']
             = [(''Timestamp'', strip t), (''User'', ''Al''), (''Message'', ''hi'')]" for t
    by (simp add: bracket_timestamp_user_def make_record_def dict_of_def strip_def isspace_def)
  have t: "strip ''10:01'' = ''10:01''" "strip ''10:02'' = ''10:02''" "strip ''10:03'' = ''10:03''"
    by (simp_all add: strip_def isspace_def)
  from extraction_skips_and_keeps_order [OF c 1 2 3 4 5, of "[]" "[]" "[]"]
  have "parse_chat_with_pattern
     (Opened [Line (''[10:01] Al: hi'' @ [CHR 0x0A]),
              Line (''Messages are encrypted'' @ [CHR 0x0A]),
              Line (''[10:02] Al: hi'' @ [CHR 0x0A]),
              Line [CHR 0x0A],
              Line ''[10:03] Al: hi''])
     (capture_re bracket_timestamp_user) (cols bracket_timestamp_user)
   = ([[(''Timestamp'', ''10:01''), (''User'', ''Al''), (''Message'', ''hi'')],
       [(''Timestamp'', ''10:02''), (''User'', ''Al''), (''Message'', ''hi'')],
       [(''Timestamp'', ''10:03''), (''User'', ''Al''), (''Message'', ''hi'')]], [])"
    unfolding r t by simp
  with c 1 2 3 4 5 show ?thesis by blast
qed

subsection \<open>C8: the sample\<close>

text \<open>
  C8. The sample is built from the first \<open>lines_to_sample\<close> physical lines only: each
  is stripped and the empty ones are dropped, whatever follows these lines in the file. So
  when all of them are empty or whitespace, in particular when the file is empty, the
  sample is empty and inference returns \<open>(None, None)\<close>.
\<close>

theorem sample_is_taken_from_first_lines:
  assumes "nat n \<le> length ls \<or> rs = []"
  shows "read_sample (Opened (map Line ls @ rs)) n
           = Inr (filter (\<lambda>l. l \<noteq> []) (map strip (take (nat n) ls))) \<and>
         ((\<forall>l\<in>set (take (nat n) ls). strip l = []) \<longrightarrow>
            auto_generate_pattern (Opened (map Line ls @ rs)) n
              = (Inr (None, None), [Analyzing n, EmptySample]))"
proof -
  have "sample_loop (nat n) (map Line ls @ rs) [] = sample_loop (nat n) (map Line ls) []"
    using assms by (auto simp: sample_loop_prefix)
  then have r: "read_sample (Opened (map Line ls @ rs)) n
           = Inr (filter (\<lambda>l. l \<noteq> []) (map strip (take (nat n) ls)))"
    by (simp add: read_sample_def sample_loop_lines)
  have "auto_generate_pattern (Opened (map Line ls @ rs)) n
              = (Inr (None, None), [Analyzing n, EmptySample])"
    if "\<forall>l\<in>set (take (nat n) ls). strip l = []"
  proof -
    from that have "filter (\<lambda>l. l \<noteq> []) (map strip (take (nat n) ls)) = []"
      by (simp add: filter_empty_conv)
    with r show ?thesis by (simp add: auto_generate_pattern_def Let_def)
  qed
  with r show ?thesis by blast
qed

theorem sample_is_taken_from_first_lines_witness:
  "nat 2 \<le> length [''   '', [CHR 0x09, CHR 0x0A], ''1/2/23, 10:00 - Al: hi''] \<and>
   read_sample (Opened (map Line [''   '', [CHR 0x09, CHR 0x0A], ''1/2/23, 10:00 - Al: hi''] @
       [Fails OSError])) 2 = Inr [] \<and>
   auto_generate_pattern (Opened (map Line [''   '', [CHR 0x09, CHR 0x0A],
       ''1/2/23, 10:00 - Al: hi''] @ [Fails OSError])) 2
     = (Inr (None, None), [Analyzing 2, EmptySample])"
  using sample_is_taken_from_first_lines
    [of 2 "[''   '', [CHR 0x09, CHR 0x0A], ''1/2/23, 10:00 - Al: hi'']" "[Fails OSError]"]
  by (simp add: strip_def isspace_def)

subsection \<open>C9: as many columns as groups\<close>

text \<open>
  C9. Every candidate of the table has as many column names as its capture expression
  has groups, and every record that extraction returns with a candidate's format, on any
  file, has exactly the candidate's columns as its keys, in their order.
\<close>

theorem records_have_all_fields:
  "\<forall>c\<in>set patterns_to_try.
     length (cols c) = groups_of (capture_re c) \<and>
     (\<forall>f. \<forall>r\<in>set (fst (parse_chat_with_pattern f (capture_re c) (cols c))).
        map fst r = cols c)"
proof (intro ballI conjI allI)
  fix c assume c: "c \<in> set patterns_to_try"
  from builtin_shape [OF c] show "length (cols c) = groups_of (capture_re c)" by simp
  fix f r assume "r \<in> set (fst (parse_chat_with_pattern f (capture_re c) (cols c)))"
  from parse_rows [OF this] obtain line g where
    m: "re_match (capture_re c) line = Some g" and r: "r = make_record (cols c) g"
    by blast
  from re_match_length [OF m] builtin_shape [OF c] have "length g = length (cols c)" by simp
  with builtin_shape [OF c] r show "map fst r = cols c"
    by (simp add: make_record_distinct)
qed

theorem records_have_all_fields_witness:
  "timestamp_dash_user \<in> set patterns_to_try \<and>
   length (cols timestamp_dash_user) = groups_of (capture_re timestamp_dash_user) \<and>
   [(''Timestamp'', ''a''), (''User'', ''b''), (''Message'', ''c'')]
     \<in> set (fst (parse_chat_with_pattern (Opened [Line ''a - b: c''])
                   (capture_re timestamp_dash_user) (cols timestamp_dash_user))) \<and>
   map fst [(''Timestamp'', ''a''), (''User'', ''b''), (''Message'', ''c'')]
     = cols timestamp_dash_user"
proof -
  have c: "timestamp_dash_user \<in> set patterns_to_try"
    by (simp add: patterns_to_try_def)
  have r: "[(''Timestamp'', ''a''), (''User'', ''b''), (''Message'', ''c'')]
     \<in> set (fst (parse_chat_with_pattern (Opened [Line ''a - b: c''])
                   (capture_re timestamp_dash_user) (cols timestamp_dash_user)))"
    by (simp add: parse_chat_with_pattern_def timestamp_dash_user_def re_match_def
        strip_def isspace_def make_record_def dict_of_def)
  from records_have_all_fields c
  have "length (cols timestamp_dash_user) = groups_of (capture_re timestamp_dash_user) \<and>
     (\<forall>f. \<forall>r\<in>set (fst (parse_chat_with_pattern f (capture_re timestamp_dash_user)
                            (cols timestamp_dash_user))).
        map fst r = cols timestamp_dash_user)"
    by (rule bspec)
  with c r show ?thesis by blast
qed

subsection \<open>C10: the result of inference is all or nothing\<close>

text \<open>
  While every \<open>print\<close> succeeds the function raises nothing: it returns a pair that is
  \<open>(None, None)\<close> or has both parts, and \<open>(None, None)\<close> whenever opening or reading the
  file fails, a missing file included.
\<close>

lemma all_or_nothing_when_printed:
  "(\<exists>r. fst (auto_generate_pattern f n) = Inr r \<and>
        (r = (None, None) \<or> (\<exists>p columns. r = (Some p, Some columns)))) \<and>
   (\<forall>e. read_sample f n = Inl e \<longrightarrow> fst (auto_generate_pattern f n) = Inr (None, None))"
proof (intro conjI allI impI)
  show "\<exists>r. fst (auto_generate_pattern f n) = Inr r \<and>
          (r = (None, None) \<or> (\<exists>p columns. r = (Some p, Some columns)))"
  proof (cases "read_sample f n")
    case (Inl e)
    then show ?thesis by (simp add: inference_on_error)
  next
    case (Inr sample_lines)
    have "selected patterns_to_try sample_lines = (None, None) \<or>
          (\<exists>p columns. selected patterns_to_try sample_lines = (Some p, Some columns))"
      by (simp add: selected_def split: option.splits)
    with inference_on_sample [OF Inr] show ?thesis by auto
  qed
next
  fix e assume "read_sample f n = Inl e"
  then show "fst (auto_generate_pattern f n) = Inr (None, None)"
    by (simp add: inference_on_error)
qed

text \<open>
  C10, as the code has it. \<open>auto_generate_pattern\<close> raises to its caller only an
  exception that one of its \<open>print\<close> calls raises: for every standard output, file and
  sample size it either raises such an exception or returns a pair that is \<open>(None, None)\<close>
  or a capture expression together with its column names. On a standard output whose
  \<open>print\<close> always succeeds it never raises, and it returns \<open>(None, None)\<close> whenever
  opening or reading the file fails, a missing file included.
\<close>

theorem inference_raises_only_from_print:
  "((\<exists>e out m. fst (auto_generate_pattern_on console f n) = Inl e \<and> console out m = Some e) \<or>
    (\<exists>r. fst (auto_generate_pattern_on console f n) = Inr r \<and>
         (r = (None, None) \<or> (\<exists>p columns. r = (Some p, Some columns))))) \<and>
   ((\<forall>out m. console out m = None) \<longrightarrow>
      auto_generate_pattern_on console f n = auto_generate_pattern f n \<and>
      (\<exists>r. fst (auto_generate_pattern_on console f n) = Inr r \<and>
           (r = (None, None) \<or> (\<exists>p columns. r = (Some p, Some columns)))) \<and>
      (\<forall>e. read_sample f n = Inl e \<longrightarrow>
           fst (auto_generate_pattern_on console f n) = Inr (None, None)) \<and>
      fst (auto_generate_pattern_on console (CannotOpen FileNotFoundError) n)
        = Inr (None, None))"
proof (intro conjI impI)
  from auto_generate_pattern_on_outcome [of console f n]
  show "(\<exists>e out m. fst (auto_generate_pattern_on console f n) = Inl e \<and> console out m = Some e) \<or>
    (\<exists>r. fst (auto_generate_pattern_on console f n) = Inr r \<and>
         (r = (None, None) \<or> (\<exists>p columns. r = (Some p, Some columns))))"
    unfolding raised_by_print_def all_or_nothing_def by blast
next
  assume q: "\<forall>out m. console out m = None"
  then show eq: "auto_generate_pattern_on console f n = auto_generate_pattern f n"
    by (rule auto_generate_pattern_on_always)
  from all_or_nothing_when_printed [of f n]
  show "\<exists>r. fst (auto_generate_pattern_on console f n) = Inr r \<and>
           (r = (None, None) \<or> (\<exists>p columns. r = (Some p, Some columns)))"
    unfolding eq by (rule conjunct1)
  from all_or_nothing_when_printed [of f n]
  show "\<forall>e. read_sample f n = Inl e \<longrightarrow>
           fst (auto_generate_pattern_on console f n) = Inr (None, None)"
    unfolding eq by (rule conjunct2)
  from q have "auto_generate_pattern_on console (CannotOpen FileNotFoundError) n
                 = auto_generate_pattern (CannotOpen FileNotFoundError) n"
    by (rule auto_generate_pattern_on_always)
  then show "fst (auto_generate_pattern_on console (CannotOpen FileNotFoundError) n)
               = Inr (None, None)"
    by (simp add: inference_on_error read_sample_def)
qed

theorem inference_raises_only_from_print_witness:
  "(\<forall>out m. quiet_stdout out m = None) \<and>
   read_sample (Opened [Line ''hello'', Fails UnicodeDecodeError]) 20 = Inl UnicodeDecodeError \<and>
   auto_generate_pattern_on quiet_stdout (Opened [Line ''hello'', Fails UnicodeDecodeError]) 20
     = auto_generate_pattern (Opened [Line ''hello'', Fails UnicodeDecodeError]) 20 \<and>
   fst (auto_generate_pattern_on quiet_stdout
          (Opened [Line ''hello'', Fails UnicodeDecodeError]) 20)
     = Inr (None, None)"
proof -
  have q: "\<forall>out m. quiet_stdout out m = None"
    by (simp add: quiet_stdout_def)
  have r: "read_sample (Opened [Line ''hello'', Fails UnicodeDecodeError]) 20
             = Inl UnicodeDecodeError"
    using sample_loop_fails [of "[''hello'']" 20 UnicodeDecodeError "[]" "[]"]
    by (simp add: read_sample_def)
  from inference_raises_only_from_print
    [of quiet_stdout "Opened [Line ''hello'', Fails UnicodeDecodeError]" 20] q r
  show ?thesis by blast
qed

text \<open>
  The claim as it is written fails: on a standard output that encodes ASCII only, the
  first \<open>print\<close>, which stands before the \<open>try\<close>, raises, and the exception reaches the
  caller.
\<close>

theorem inference_never_raises_counterexample:
  "fst (auto_generate_pattern_on ascii_stdout (Opened [Line ''hello'']) 20)
     = Inl UnicodeEncodeError"
  by (simp add: auto_generate_pattern_on_def py_print_def ascii_stdout_def)

end
